theory Spec2Isabelle
  imports Main "HOL-Library.Sublist" "HOL-Library.Multiset" "HOL-Library.Char_ord"
    "HOL-Library.List_Lexorder"
begin

section \<open>Python values and the helpers the scripts rely on\<close>

text \<open>
  The three scripts (\<^verbatim>\<open>pr.py\<close>, \<^verbatim>\<open>review.py\<close>, \<^verbatim>\<open>commit.py\<close>) work on
  decoded JSON. A decoded value is one of Python's \<^verbatim>\<open>None\<close>, \<^verbatim>\<open>bool\<close>,
  \<^verbatim>\<open>int\<close>, \<^verbatim>\<open>str\<close>, \<^verbatim>\<open>list\<close>, \<^verbatim>\<open>dict\<close>. Numbers with a fraction
  (Python \<^verbatim>\<open>float\<close>) are not part of the model. A \<^verbatim>\<open>dict\<close> is an association
  list read with \<open>map_of\<close>. Strings are \<open>string\<close>; the literals the scripts compare
  against are ASCII.
\<close>

datatype json =
    JNull
  | JBool bool
  | JNum int
  | JStr string
  | JArr "json list"
  | JObj "(string \<times> json) list"

text \<open>The exceptions the modelled code can raise and does not catch.\<close>

datatype error = ValueError | AttributeError | TypeError | FileNotFoundError

text \<open>Sequencing of a step that may raise: the exception leaves the function.\<close>

definition then_do :: "error + 'a \<Rightarrow> ('a \<Rightarrow> error + 'b) \<Rightarrow> error + 'b" where
  "then_do m f = (case m of Inl e \<Rightarrow> Inl e | Inr x \<Rightarrow> f x)"

text \<open>A \<^verbatim>\<open>for\<close> loop whose body updates the loop state and may raise.\<close>

fun for_each :: "('i \<Rightarrow> 's \<Rightarrow> error + 's) \<Rightarrow> 'i list \<Rightarrow> 's \<Rightarrow> error + 's" where
  "for_each body [] s = Inr s"
| "for_each body (i # rest) s =
     (case body i s of Inl e \<Rightarrow> Inl e | Inr s' \<Rightarrow> for_each body rest s')"

text \<open>Python truthiness: \<^verbatim>\<open>not x\<close> holds for None, False, 0, and the empty containers.\<close>

fun truthy :: "json \<Rightarrow> bool" where
  "truthy JNull = False"
| "truthy (JBool b) = b"
| "truthy (JNum n) = (n \<noteq> 0)"
| "truthy (JStr s) = (s \<noteq> [])"
| "truthy (JArr xs) = (xs \<noteq> [])"
| "truthy (JObj kvs) = (kvs \<noteq> [])"

fun is_dict :: "json \<Rightarrow> bool" where
  "is_dict (JObj kvs) = True"
| "is_dict _ = False"

fun is_list :: "json \<Rightarrow> bool" where
  "is_list (JArr xs) = True"
| "is_list _ = False"

fun is_str :: "json \<Rightarrow> bool" where
  "is_str (JStr s) = True"
| "is_str _ = False"

text \<open>\<^verbatim>\<open>d.get(key, default)\<close>: only a dict has the method.\<close>

fun dict_get :: "json \<Rightarrow> string \<Rightarrow> json \<Rightarrow> error + json" where
  "dict_get (JObj kvs) k d = Inr (case map_of kvs k of None \<Rightarrow> d | Some v \<Rightarrow> v)"
| "dict_get _ k d = Inl AttributeError"

text \<open>
  The same lookup where the code has already checked that the value is a dict, so that
  \<^verbatim>\<open>get\<close> cannot raise; on any other value it gives the default.
\<close>

fun get_or :: "json \<Rightarrow> string \<Rightarrow> json \<Rightarrow> json" where
  "get_or (JObj kvs) k d = (case map_of kvs k of None \<Rightarrow> d | Some v \<Rightarrow> v)"
| "get_or _ k d = d"

text \<open>
  \<^verbatim>\<open>x[:n]\<close>: strings and lists can be sliced; None, booleans and numbers raise
  TypeError. Slicing a dict raises as well (TypeError up to Python 3.11, KeyError from
  3.12 on; the model takes TypeError).
\<close>

fun slice_to :: "nat \<Rightarrow> json \<Rightarrow> error + json" where
  "slice_to n (JStr s) = Inr (JStr (take n s))"
| "slice_to n (JArr xs) = Inr (JArr (take n xs))"
| "slice_to n _ = Inl TypeError"

text \<open>\<^verbatim>\<open>len(x)\<close>: defined on strings, lists and dicts.\<close>

fun py_len :: "json \<Rightarrow> error + nat" where
  "py_len (JStr s) = Inr (length s)"
| "py_len (JArr xs) = Inr (length xs)"
| "py_len (JObj kvs) = Inr (length (remdups (map fst kvs)))"
| "py_len _ = Inl TypeError"

text \<open>
  \<^verbatim>\<open>s.lower()\<close> on the ASCII letters; characters outside ASCII are left as they
  are (Python would also fold the letters of other alphabets).
\<close>

definition lower_char :: "char \<Rightarrow> char" where
  "lower_char c =
     (case map_of (zip ''ABCDEFGHIJKLMNOPQRSTUVWXYZ'' ''abcdefghijklmnopqrstuvwxyz'') c of
        None \<Rightarrow> c
      | Some l \<Rightarrow> l)"

definition lower :: "string \<Rightarrow> string" where
  "lower s = map lower_char s"

text \<open>A string method called on a value: only a \<^verbatim>\<open>str\<close> has it.\<close>

fun as_str :: "json \<Rightarrow> error + string" where
  "as_str (JStr s) = Inr s"
| "as_str _ = Inl AttributeError"

text \<open>\<^verbatim>\<open>s.startswith(p)\<close> on strings.\<close>

definition startswith :: "string \<Rightarrow> string \<Rightarrow> bool" where
  "startswith s p = prefix p s"

text \<open>\<^verbatim>\<open>s.split('\n')[0]\<close>: the text before the first line feed.\<close>

definition first_line :: "string \<Rightarrow> string" where
  "first_line s = takeWhile (\<lambda>c. c \<noteq> CHR 0x0A) s"

text \<open>
  \<^verbatim>\<open>range(start, stop, step)\<close> as the list of its values; a zero step raises
  ValueError.
\<close>

definition range_len :: "int \<Rightarrow> int \<Rightarrow> int \<Rightarrow> nat" where
  "range_len start stop step =
     (if 0 < step then (if start < stop then nat ((stop - start - 1) div step + 1) else 0)
      else (if stop < start then nat ((start - stop - 1) div (- step) + 1) else 0))"

definition range_values :: "int \<Rightarrow> int \<Rightarrow> int \<Rightarrow> int list" where
  "range_values start stop step =
     map (\<lambda>k. start + int k * step) [0..<range_len start stop step]"

definition py_range :: "int \<Rightarrow> int \<Rightarrow> int \<Rightarrow> error + int list" where
  "py_range start stop step =
     (if step = 0 then Inl ValueError else Inr (range_values start stop step))"

text \<open>
  \<^verbatim>\<open>xs[i:j]\<close> on a list: a negative bound counts from the end, and both bounds are
  clamped to the list.
\<close>

definition slice_bound :: "'a list \<Rightarrow> int \<Rightarrow> nat" where
  "slice_bound xs i =
     (let n = int (length xs) in nat (if i < 0 then max 0 (i + n) else min i n))"

definition py_slice :: "'a list \<Rightarrow> int \<Rightarrow> int \<Rightarrow> 'a list" where
  "py_slice xs i j = take (slice_bound xs j - slice_bound xs i) (drop (slice_bound xs i) xs)"

text \<open>
  Numbers as Python compares and subtracts them: \<^verbatim>\<open>bool\<close> is a subtype of
  \<^verbatim>\<open>int\<close>.
\<close>

fun is_num :: "json \<Rightarrow> bool" where
  "is_num (JNum n) = True"
| "is_num (JBool b) = True"
| "is_num _ = False"

fun num_val :: "json \<Rightarrow> int" where
  "num_val (JNum n) = n"
| "num_val (JBool b) = (if b then 1 else 0)"
| "num_val _ = 0"

fun str_val :: "json \<Rightarrow> string" where
  "str_val (JStr s) = s"
| "str_val _ = []"

text \<open>\<^verbatim>\<open>n >= x\<close> for an integer \<open>n\<close>: TypeError unless \<open>x\<close> is a number.\<close>

definition int_ge :: "int \<Rightarrow> json \<Rightarrow> error + bool" where
  "int_ge n x = (if is_num x then Inr (num_val x \<le> n) else Inl TypeError)"

text \<open>
  \<^verbatim>\<open>xs.sort(key=..., reverse=...)\<close>. Python's sort is stable, also with
  \<^verbatim>\<open>reverse=True\<close> (the list is reversed, sorted and reversed again). A list of
  fewer than two elements needs no comparison. Keys that are all numbers, or all strings,
  are ordered as Python orders them (strings by code point, a proper prefix first). For
  any other keys the model raises TypeError, as Python does when it compares a number
  with a string, or None or a dict with anything; the lists of arrays that Python is able
  to order are not modelled.
\<close>

definition stable_sort :: "('a \<Rightarrow> 'k::linorder) \<Rightarrow> bool \<Rightarrow> 'a list \<Rightarrow> 'a list" where
  "stable_sort k reverse xs = (if reverse then rev (sort_key k (rev xs)) else sort_key k xs)"

definition py_sort :: "('a \<Rightarrow> json) \<Rightarrow> bool \<Rightarrow> 'a list \<Rightarrow> error + 'a list" where
  "py_sort key reverse xs =
     (if length xs \<le> 1 then Inr xs
      else if list_all (\<lambda>x. is_num (key x)) xs
        then Inr (stable_sort (\<lambda>x. num_val (key x)) reverse xs)
      else if list_all (\<lambda>x. is_str (key x)) xs
        then Inr (stable_sort (\<lambda>x. str_val (key x)) reverse xs)
      else Inl TypeError)"

text \<open>Values that cannot be members of a \<^verbatim>\<open>set\<close>.\<close>

fun unhashable :: "json \<Rightarrow> bool" where
  "unhashable (JArr xs) = True"
| "unhashable (JObj kvs) = True"
| "unhashable _ = False"

section \<open>Transport\<close>

text \<open>
  What a request asks for. The scripts build URL strings; the model keeps the parts the
  URL is built from. \<open>Url\<close> is an address taken verbatim from API data.
\<close>

datatype request =
    SearchIssues string nat nat
  | IssueComments string string json
  | ListCommits string string string string string nat nat
  | Url json

text \<open>
  The process environment: the module-level configuration read from the environment
  variables, the sprint table of the absent module \<^verbatim>\<open>sprint_config\<close>, and the network.
  \<open>urlopen\<close> stands for the \<^verbatim>\<open>try\<close> block of \<^verbatim>\<open>github_request\<close>: \<open>Some\<close> of
  the decoded body, or \<open>None\<close> for an HTTP error status and for any other exception
  caught there. The answer depends on the request only: the network does not change
  during a run. The checks \<^verbatim>\<open>urllib\<close> makes on the URL string before the
  \<^verbatim>\<open>try\<close> block are not modelled.
\<close>

record env =
  GITHUB_TOKEN :: "string option"
  ORGANIZATION :: string
  REPOSITORY :: string
  USERNAME :: string
  sprint_config :: "string \<rightharpoonup> string \<times> string"
  urlopen :: "request \<Rightarrow> json option"

definition token_missing :: "env \<Rightarrow> bool" where
  "token_missing e = (case GITHUB_TOKEN e of None \<Rightarrow> True | Some t \<Rightarrow> t = [])"

definition github_request :: "env \<Rightarrow> request \<Rightarrow> error + json" where
  "github_request e url =
     (if token_missing e then Inl ValueError
      else Inr (case urlopen e url of None \<Rightarrow> JNull | Some data \<Rightarrow> data))"

section \<open>The commit report (commit.py)\<close>

record commit_data =
  sha :: json
  short_sha :: json
  message :: string
  full_message :: string
  author_name :: json
  author_email :: json
  author_date :: json
  committer_name :: json
  committer_date :: json
  lines_added :: json
  lines_deleted :: json
  files_changed :: nat
  url :: json

text \<open>Lines 108 to 120: the statistics of one commit, zero when no detail is available.\<close>

definition commit_stats :: "env \<Rightarrow> json \<Rightarrow> error + (json \<times> json \<times> nat)" where
  "commit_stats e commit_detail_url =
     (if truthy commit_detail_url then
        then_do (github_request e (Url commit_detail_url)) (\<lambda>commit_details.
          if truthy commit_details \<and> is_dict commit_details then
            then_do (dict_get commit_details ''stats'' (JObj [])) (\<lambda>stats.
            then_do (dict_get stats ''additions'' (JNum 0)) (\<lambda>additions.
            then_do (dict_get stats ''deletions'' (JNum 0)) (\<lambda>deletions.
            then_do (dict_get commit_details ''files'' (JArr [])) (\<lambda>files.
            then_do (py_len files) (\<lambda>n.
              Inr (additions, deletions, n))))))
          else Inr (JNum 0, JNum 0, 0))
      else Inr (JNum 0, JNum 0, 0))"

text \<open>
  The body of the loop of \<^verbatim>\<open>process_commits_for_listing\<close> for one commit: the entry
  it appends, or \<open>None\<close> where the body ends in \<^verbatim>\<open>continue\<close>.
\<close>

definition commit_entry :: "env \<Rightarrow> json \<Rightarrow> error + commit_data option" where
  "commit_entry e commit =
     then_do (dict_get commit ''commit'' (JObj [])) (\<lambda>commit_info.
     then_do (dict_get commit ''sha'' (JStr [])) (\<lambda>sha_full.
     then_do (slice_to 7 sha_full) (\<lambda>commit_sha.
     then_do (dict_get commit_info ''message'' (JStr [])) (\<lambda>msg.
     then_do (as_str msg) (\<lambda>full.
     (let commit_message = first_line full in
      then_do (dict_get commit ''url'' JNull) (\<lambda>commit_detail_url.
      then_do (commit_stats e commit_detail_url) (\<lambda>(additions, deletions, files).
      then_do (dict_get commit_info ''author'' (JObj [])) (\<lambda>author_info.
      then_do (dict_get commit_info ''committer'' (JObj [])) (\<lambda>committer_info.
      then_do (dict_get committer_info ''name'' (JStr [])) (\<lambda>cname.
        if cname = JStr ''GitHub'' then Inr None
        else if startswith commit_message ''Merge branch'' then Inr None
        else
          then_do (dict_get author_info ''name'' (JStr [])) (\<lambda>aname.
          then_do (dict_get author_info ''email'' (JStr [])) (\<lambda>aemail.
          then_do (dict_get author_info ''date'' (JStr [])) (\<lambda>adate.
          then_do (dict_get committer_info ''date'' (JStr [])) (\<lambda>cdate.
          then_do (dict_get commit ''html_url'' (JStr [])) (\<lambda>html.
            Inr (Some \<lparr> sha = sha_full, short_sha = commit_sha,
              message = commit_message, full_message = full,
              author_name = aname, author_email = aemail, author_date = adate,
              committer_name = cname, committer_date = cdate,
              lines_added = additions, lines_deleted = deletions,
              files_changed = files, url = html \<rparr>)))))))))))))))))"

definition listing_body :: "env \<Rightarrow> json \<Rightarrow> commit_data list \<Rightarrow> error + commit_data list" where
  "listing_body e commit commit_list =
     then_do (commit_entry e commit) (\<lambda>r.
       case r of None \<Rightarrow> Inr commit_list
               | Some commit_data \<Rightarrow> Inr (commit_list @ [commit_data]))"

definition process_commits_for_listing :: "env \<Rightarrow> json list \<Rightarrow> error + commit_data list" where
  "process_commits_for_listing e commits = for_each (listing_body e) commits []"

section \<open>Paginators\<close>

definition per_page :: nat where
  "per_page = 100"

text \<open>
  The \<^verbatim>\<open>return\<close> statement of \<^verbatim>\<open>get_filtered_prs\<close> and \<^verbatim>\<open>get_all_prs_fast\<close>,
  reached by every \<^verbatim>\<open>break\<close>: it reads \<^verbatim>\<open>total_count\<close> from the last response
  when that response is truthy.
\<close>

definition search_return :: "json list \<Rightarrow> json \<Rightarrow> error + json list \<times> json" where
  "search_return all_items search_data =
     (if truthy search_data then
        then_do (dict_get search_data ''total_count'' (JNum (int (length all_items))))
          (\<lambda>total. Inr (all_items, total))
      else Inr (all_items, JNum (int (length all_items))))"

text \<open>
  The \<^verbatim>\<open>while True\<close> loop of the search paginator, from the page and the items
  accumulated so far. \<^verbatim>\<open>get_filtered_prs\<close> (review.py) and \<^verbatim>\<open>get_all_prs_fast\<close>
  (pr.py) have the same text. The loop need not end, so the result is an option;
  \<open>None\<close> is a loop that runs forever.
\<close>

partial_function (option) search_pages ::
  "env \<Rightarrow> string \<Rightarrow> nat \<Rightarrow> json list \<Rightarrow> (error + json list \<times> json) option" where
  "search_pages e query page all_items =
     (case github_request e (SearchIssues query per_page page) of
        Inl err \<Rightarrow> Some (Inl err)
      | Inr search_data \<Rightarrow>
          if \<not> truthy search_data then Some (search_return all_items search_data)
          else if \<not> is_dict search_data then Some (search_return all_items search_data)
          else
            (let items = get_or search_data ''items'' (JArr []);
                 total_count = get_or search_data ''total_count'' (JNum 0)
             in case items of
                  JArr its \<Rightarrow>
                    if its = [] then Some (search_return all_items search_data)
                    else if length its < per_page
                      then Some (search_return (all_items @ its) search_data)
                    else
                      (case int_ge (int (length (all_items @ its))) total_count of
                         Inl err \<Rightarrow> Some (Inl err)
                       | Inr reached \<Rightarrow>
                           if reached then Some (search_return (all_items @ its) search_data)
                           else search_pages e query (Suc page) (all_items @ its))
                | _ \<Rightarrow> Some (search_return all_items search_data)))"

definition get_filtered_prs :: "env \<Rightarrow> string \<Rightarrow> (error + json list \<times> json) option" where
  "get_filtered_prs e query = search_pages e query 1 []"

definition get_all_prs_fast :: "env \<Rightarrow> string \<Rightarrow> (error + json list \<times> json) option" where
  "get_all_prs_fast e query = search_pages e query 1 []"

text \<open>The loop of \<^verbatim>\<open>get_all_commits_fast\<close> (commit.py).\<close>

partial_function (option) commit_pages ::
  "env \<Rightarrow> (nat \<Rightarrow> request) \<Rightarrow> nat \<Rightarrow> json list \<Rightarrow> (error + json list \<times> nat) option" where
  "commit_pages e commits_url page all_commits =
     (case github_request e (commits_url page) of
        Inl err \<Rightarrow> Some (Inl err)
      | Inr commits_data \<Rightarrow>
          if \<not> truthy commits_data then Some (Inr (all_commits, length all_commits))
          else
            (case commits_data of
               JArr cs \<Rightarrow>
                 if length cs < per_page
                   then Some (Inr (all_commits @ cs, length (all_commits @ cs)))
                 else commit_pages e commits_url (Suc page) (all_commits @ cs)
             | _ \<Rightarrow> Some (Inr (all_commits, length all_commits))))"

definition get_all_commits_fast ::
  "env \<Rightarrow> string \<Rightarrow> string \<Rightarrow> string \<Rightarrow> string \<Rightarrow> string \<Rightarrow> (error + json list \<times> nat) option"
  where
  "get_all_commits_fast e org repo user since_date until_date =
     commit_pages e (\<lambda>page. ListCommits org repo user since_date until_date per_page page) 1 []"

section \<open>Checkpoint files\<close>

text \<open>
  The files a run touches: the progress files by name, the report files by name (a
  report file holds the records in the order they were written; the text of the cells is
  not modelled), and whether the directory \<^verbatim>\<open>csvs\<close> exists. Clock readings
  (\<^verbatim>\<open>datetime.now()\<close>) are parameters of the functions that take them, and the
  \<^verbatim>\<open>timestamp\<close> key of a progress file is left out.
\<close>

record ('p, 'r) files =
  progress_files :: "string \<rightharpoonup> 'p"
  report_files :: "string \<rightharpoonup> 'r list"
  csvs_dir :: bool

definition save_progress :: "'p \<Rightarrow> string \<Rightarrow> ('p, 'r) files \<Rightarrow> ('p, 'r) files" where
  "save_progress data filename fs = fs\<lparr>progress_files := (progress_files fs)(filename \<mapsto> data)\<rparr>"

definition load_progress :: "string \<Rightarrow> ('p, 'r) files \<Rightarrow> 'p option" where
  "load_progress filename fs = progress_files fs filename"

text \<open>\<^verbatim>\<open>if os.path.exists(f): os.remove(f)\<close>\<close>

definition remove_progress :: "string \<Rightarrow> ('p, 'r) files \<Rightarrow> ('p, 'r) files" where
  "remove_progress filename fs = fs\<lparr>progress_files := (progress_files fs)(filename := None)\<rparr>"

definition write_report :: "string \<Rightarrow> 'r list \<Rightarrow> ('p, 'r) files \<Rightarrow> ('p, 'r) files" where
  "write_report filename rows fs = fs\<lparr>report_files := (report_files fs)(filename \<mapsto> rows)\<rparr>"

text \<open>Why the loop body of a batch processor ended in \<^verbatim>\<open>continue\<close> (the message it prints).\<close>

datatype skip =
    SelfAuthored
  | NoDetailUrl
  | NoValidDetails
  | InvalidBaseInfo
  | InvalidBaseBranch
  | Targeting json

section \<open>The PR report (pr.py)\<close>

record pr_info =
  number :: json
  title :: json
  target_branch :: string
  origin_branch :: json
  lines_added :: json
  lines_deleted :: json
  created_at :: json
  merged_at :: json
  state :: json
  url :: json

text \<open>
  The progress file of pr.py; the fields are its keys, with the prefix \<open>p_\<close>.
\<close>

record pr_progress =
  p_total_prs :: nat
  p_processed_count :: nat
  p_release_prs_found :: nat
  p_processed :: "json list"
  p_release_prs :: "pr_info list"

text \<open>
  Lines 161 to 170: the target-branch check on the PR details (a dict at this point). It
  yields the base branch, or the reason for skipping the PR.
\<close>

definition pr_target_branch :: "json \<Rightarrow> skip + string" where
  "pr_target_branch pr_details =
     (let base_info = get_or pr_details ''base'' JNull in
      if \<not> is_dict base_info then Inl InvalidBaseInfo
      else
        (let base_branch = get_or base_info ''ref'' (JStr []) in
         if \<not> is_str base_branch \<or> \<not> startswith (str_val base_branch) ''release/''
         then Inl (Targeting base_branch)
         else Inr (str_val base_branch)))"

text \<open>\<^verbatim>\<open>x or 0\<close>\<close>

definition or_zero :: "json \<Rightarrow> json" where
  "or_zero x = (if truthy x then x else JNum 0)"

text \<open>
  The body of the inner loop of \<^verbatim>\<open>process_prs_in_batches\<close> for one PR: the record
  it appends to the batch, or the reason for its \<^verbatim>\<open>continue\<close>.
\<close>

definition pr_item :: "env \<Rightarrow> json \<Rightarrow> error + (skip + pr_info)" where
  "pr_item e pr =
     then_do (dict_get pr ''number'' JNull) (\<lambda>shown_number.
     then_do (dict_get pr ''title'' JNull) (\<lambda>shown_title.
     then_do (slice_to 50 shown_title) (\<lambda>shown.
     then_do (dict_get pr ''pull_request'' (JObj [])) (\<lambda>pull_request.
     then_do (dict_get pull_request ''url'' JNull) (\<lambda>pr_detail_url.
       if \<not> truthy pr_detail_url then Inr (Inl NoDetailUrl)
       else
         then_do (github_request e (Url pr_detail_url)) (\<lambda>pr_details.
           if \<not> truthy pr_details \<or> \<not> is_dict pr_details then Inr (Inl NoValidDetails)
           else
             (case pr_target_branch pr_details of
                Inl reason \<Rightarrow> Inr (Inl reason)
              | Inr base_branch \<Rightarrow>
                  (let head_info = get_or pr_details ''head'' (JObj []);
                       origin = (if is_dict head_info then get_or head_info ''ref'' (JStr [])
                                 else JStr [])
                   in Inr (Inr \<lparr>
                        pr_info.number = get_or pr ''number'' (JNum 0),
                        pr_info.title = get_or pr ''title'' (JStr []),
                        pr_info.target_branch = base_branch,
                        pr_info.origin_branch = origin,
                        pr_info.lines_added = or_zero (get_or pr_details ''additions'' (JNum 0)),
                        pr_info.lines_deleted = or_zero (get_or pr_details ''deletions'' (JNum 0)),
                        pr_info.created_at = get_or pr ''created_at'' (JStr []),
                        pr_info.merged_at = get_or pr_details ''merged_at'' JNull,
                        pr_info.state = get_or pr ''state'' (JStr ''unknown''),
                        pr_info.url = get_or pr ''html_url'' (JStr []) \<rparr>)))))))))"

definition pr_inner :: "env \<Rightarrow> json \<Rightarrow> pr_info list \<Rightarrow> error + pr_info list" where
  "pr_inner e pr batch_release_prs =
     then_do (pr_item e pr) (\<lambda>r.
       case r of Inl reason \<Rightarrow> Inr batch_release_prs
               | Inr info \<Rightarrow> Inr (batch_release_prs @ [info]))"

text \<open>
  One iteration of the outer loop (lines 141 to 211): the batch starting at index \<open>i\<close>
  is processed, the loop state is extended and the progress file is overwritten.
\<close>

definition pr_batch ::
  "env \<Rightarrow> string \<Rightarrow> json list \<Rightarrow> int \<Rightarrow> int \<Rightarrow>
   pr_info list \<times> json list \<times> (pr_progress, pr_info) files \<Rightarrow>
   error + pr_info list \<times> json list \<times> (pr_progress, pr_info) files" where
  "pr_batch e progress_file items batch_size i st =
     (case st of (release_prs, processed_prs, fs) \<Rightarrow>
        (let batch = py_slice items i (i + batch_size) in
         then_do (for_each (pr_inner e) batch []) (\<lambda>batch_release_prs.
           (let release_prs' = release_prs @ batch_release_prs;
                processed_prs' = processed_prs @ batch;
                progress_data = \<lparr>
                  p_total_prs = length items,
                  p_processed_count = length processed_prs',
                  p_release_prs_found = length release_prs',
                  p_processed = processed_prs',
                  p_release_prs = release_prs' \<rparr>
            in Inr (release_prs', processed_prs',
                    save_progress progress_data progress_file fs)))))"

text \<open>
  Lines 128 to 138: the state the outer loop starts from. A progress file, when there is
  one, gives the processed PRs and the start index; \<^verbatim>\<open>release_prs\<close> starts empty in
  both cases.
\<close>

definition pr_resume ::
  "(pr_progress, pr_info) files \<Rightarrow> string \<Rightarrow> pr_info list \<times> json list \<times> nat" where
  "pr_resume fs progress_file =
     (case load_progress progress_file fs of
        Some progress \<Rightarrow>
          ([], p_processed progress, length (p_processed progress))
      | None \<Rightarrow> ([], [], 0))"

definition pr_progress_file :: "string \<Rightarrow> string" where
  "pr_progress_file now = ''pr_processing_progress_'' @ now @ ''.json''"

definition process_prs_in_batches ::
  "env \<Rightarrow> (pr_progress, pr_info) files \<Rightarrow> string \<Rightarrow> json list \<Rightarrow> int \<Rightarrow>
   error + (pr_info list \<times> string) \<times> (pr_progress, pr_info) files" where
  "process_prs_in_batches e fs now items batch_size =
     (let progress_file = pr_progress_file now in
      case pr_resume fs progress_file of (release_prs, processed_prs, start_index) \<Rightarrow>
        then_do (py_range (int start_index) (int (length items)) batch_size) (\<lambda>starts.
        then_do (for_each (pr_batch e progress_file items batch_size) starts
                   (release_prs, processed_prs, fs)) (\<lambda>(release_prs', processed_prs', fs').
          Inr ((release_prs', progress_file), fs'))))"

text \<open>
  Lines 240 to 258 for one record: what can raise while its row is computed
  (\<^verbatim>\<open>pr['state'].title()\<close> when the PR is not merged, and the subtraction).
\<close>

definition pr_row_check :: "pr_info \<Rightarrow> unit \<Rightarrow> error + unit" where
  "pr_row_check pr u =
     then_do (if truthy (pr_info.merged_at pr) then Inr [] else as_str (pr_info.state pr))
       (\<lambda>status.
          if is_num (pr_info.lines_added pr) \<and> is_num (pr_info.lines_deleted pr) then Inr ()
          else Inl TypeError)"

definition generate_final_report_pr ::
  "(pr_progress, pr_info) files \<Rightarrow> string \<Rightarrow> pr_info list \<Rightarrow> string \<Rightarrow> string \<Rightarrow>
   error + string option \<times> (pr_progress, pr_info) files" where
  "generate_final_report_pr fs timestamp release_prs progress_file sprint_name =
     (if release_prs = [] then Inr (None, fs)
      else
        then_do (py_sort pr_info.number True release_prs) (\<lambda>sorted_prs.
          (let filename = ''csvs/dika-pr-sprint-'' @ sprint_name @ ''-'' @ timestamp @ ''.csv'' in
           if \<not> csvs_dir fs then Inl FileNotFoundError
           else
             then_do (for_each pr_row_check sorted_prs ()) (\<lambda>u.
               Inr (Some filename,
                    remove_progress progress_file (write_report filename sorted_prs fs))))))"

text \<open>The parsed command line of pr.py (\<^verbatim>\<open>args.org\<close> and so on).\<close>

record pr_args =
  arg_org :: "string option"
  arg_repo :: "string option"
  arg_user :: "string option"
  arg_sprint :: string
  arg_batch_size :: int
  arg_branch_prefix :: string

text \<open>\<^verbatim>\<open>args.x or DEFAULT\<close>\<close>

definition arg_or :: "string option \<Rightarrow> string \<Rightarrow> string" where
  "arg_or a d = (case a of None \<Rightarrow> d | Some v \<Rightarrow> if v = [] then d else v)"

text \<open>
  \<^verbatim>\<open>main\<close> of pr.py: the exit code and the files it leaves. \<open>now\<close> and
  \<open>timestamp\<close> are the two clock readings that name the progress file and the report.
\<close>

definition main_pr ::
  "env \<Rightarrow> (pr_progress, pr_info) files \<Rightarrow> string \<Rightarrow> string \<Rightarrow> pr_args \<Rightarrow>
   (error + int \<times> (pr_progress, pr_info) files) option" where
  "main_pr e fs now timestamp args =
     (let org = arg_or (arg_org args) (ORGANIZATION e);
          repo = arg_or (arg_repo args) (REPOSITORY e);
          user = arg_or (arg_user args) (USERNAME e)
      in
      if token_missing e then Some (Inr (1, fs))
      else if org = [] \<or> repo = [] \<or> user = [] then Some (Inr (1, fs))
      else
        (case sprint_config e (arg_sprint args) of
           None \<Rightarrow> Some (Inr (1, fs))
         | Some (start_date, end_date) \<Rightarrow>
             (let query = ''is:pr author:'' @ user @ '' repo:'' @ org @ ''/'' @ repo
                    @ '' created:'' @ start_date @ ''..'' @ end_date
              in case get_all_prs_fast e query of
                   None \<Rightarrow> None
                 | Some (Inl err) \<Rightarrow> Some (Inl err)
                 | Some (Inr (items, total_count)) \<Rightarrow>
                     if items = [] then Some (Inr (0, fs))
                     else Some (
                       then_do (process_prs_in_batches e fs now items (arg_batch_size args))
                         (\<lambda>((release_prs, progress_file), fs1).
                       then_do (generate_final_report_pr fs1 timestamp release_prs
                                  progress_file (arg_sprint args))
                         (\<lambda>(report_filename, fs2). Inr (0, fs2)))))))"

section \<open>The comment report (review.py)\<close>

text \<open>
  A comment of the target user as \<^verbatim>\<open>get_pr_comments\<close> returns it; the fields are
  the keys \<^verbatim>\<open>id\<close>, \<^verbatim>\<open>body\<close>, \<^verbatim>\<open>created_at\<close>, \<^verbatim>\<open>updated_at\<close>, \<^verbatim>\<open>url\<close>
  with the prefix \<open>uc_\<close>.
\<close>

record user_comment =
  uc_id :: json
  uc_body :: json
  uc_created_at :: json
  uc_updated_at :: json
  uc_url :: json

record comment_info =
  pr_number :: json
  pr_title :: json
  pr_author :: string
  target_branch :: string
  pr_url :: json
  comment_id :: json
  comment_body :: json
  comment_full_body :: json
  created_at :: json
  updated_at :: json
  comment_url :: json

text \<open>
  The progress file of review.py; the fields are its keys, with the prefix \<open>c_\<close>.
\<close>

record comment_progress =
  c_total_prs :: nat
  c_processed_count :: nat
  c_comments_found :: nat
  c_processed :: "json list"
  c_all_comments :: "comment_info list"

text \<open>The body of the loop of \<^verbatim>\<open>get_pr_comments\<close> for one comment.\<close>

definition keep_user_comment ::
  "string \<Rightarrow> json \<Rightarrow> user_comment list \<Rightarrow> error + user_comment list" where
  "keep_user_comment username comment user_comments =
     (if \<not> is_dict comment then Inr user_comments
      else
        (let comment_user = get_or comment ''user'' (JObj []) in
         if \<not> is_dict comment_user then Inr user_comments
         else
           then_do (as_str (get_or comment_user ''login'' (JStr []))) (\<lambda>login.
             if lower login = lower username then
               Inr (user_comments @ [\<lparr>
                 uc_id = get_or comment ''id'' (JNum 0),
                 uc_body = get_or comment ''body'' (JStr []),
                 uc_created_at = get_or comment ''created_at'' (JStr []),
                 uc_updated_at = get_or comment ''updated_at'' (JStr []),
                 uc_url = get_or comment ''html_url'' (JStr []) \<rparr>])
             else Inr user_comments)))"

definition get_pr_comments :: "env \<Rightarrow> json \<Rightarrow> string \<Rightarrow> error + user_comment list" where
  "get_pr_comments e pr_num username =
     then_do (github_request e (IssueComments (ORGANIZATION e) (REPOSITORY e) pr_num))
       (\<lambda>comments_data.
          case comments_data of
            JArr cs \<Rightarrow> for_each (keep_user_comment username) cs []
          | _ \<Rightarrow> Inr [])"

text \<open>Lines 199 to 212: the target-branch check on the PR details (a dict at this point).\<close>

definition review_target_branch :: "json \<Rightarrow> skip + string" where
  "review_target_branch pr_details =
     (let base_info = get_or pr_details ''base'' JNull in
      if \<not> is_dict base_info then Inl InvalidBaseInfo
      else
        (let base_branch = get_or base_info ''ref'' (JStr []) in
         if \<not> is_str base_branch then Inl InvalidBaseBranch
         else if str_val base_branch \<noteq> ''staging''
                 \<and> \<not> startswith (str_val base_branch) ''release/''
           then Inl (Targeting base_branch)
         else Inr (str_val base_branch)))"

text \<open>
  \<^verbatim>\<open>body[:200] + '...' if len(body) > 200 else body\<close>: the length is taken
  first.
\<close>

definition comment_preview :: "json \<Rightarrow> error + json" where
  "comment_preview body =
     then_do (py_len body) (\<lambda>n.
       if 200 < n then
         then_do (slice_to 200 body) (\<lambda>cut.
           case cut of JStr t \<Rightarrow> Inr (JStr (t @ ''...'')) | _ \<Rightarrow> Inl TypeError)
       else Inr body)"

text \<open>Lines 221 to 235: the record built for one comment of an accepted PR.\<close>

definition comment_row ::
  "json \<Rightarrow> json \<Rightarrow> json \<Rightarrow> string \<Rightarrow> string \<Rightarrow> user_comment \<Rightarrow> comment_info list \<Rightarrow>
   error + comment_info list" where
  "comment_row pr pr_num pr_ttl author base_branch comment batch_comments =
     then_do (comment_preview (uc_body comment)) (\<lambda>preview.
       Inr (batch_comments @ [\<lparr>
         pr_number = pr_num,
         pr_title = pr_ttl,
         pr_author = author,
         comment_info.target_branch = base_branch,
         pr_url = get_or pr ''html_url'' (JStr []),
         comment_id = uc_id comment,
         comment_body = preview,
         comment_full_body = uc_body comment,
         comment_info.created_at = uc_created_at comment,
         updated_at = uc_updated_at comment,
         comment_url = uc_url comment \<rparr>]))"

text \<open>
  The body of the inner loop of \<^verbatim>\<open>process_prs_for_comments\<close> for one PR: the
  records it adds to the batch, or the reason for its \<^verbatim>\<open>continue\<close>.
\<close>

definition review_item :: "env \<Rightarrow> string \<Rightarrow> json \<Rightarrow> error + (skip + comment_info list)" where
  "review_item e username pr =
     then_do (dict_get pr ''number'' (JNum 0)) (\<lambda>pr_num.
     then_do (dict_get pr ''title'' (JStr ''Unknown Title'')) (\<lambda>pr_ttl.
     then_do (dict_get pr ''user'' JNull) (\<lambda>pr_user.
     then_do (as_str (if is_dict pr_user then get_or pr_user ''login'' (JStr []) else JStr []))
       (\<lambda>author.
       if lower author = lower username then Inr (Inl SelfAuthored)
       else
         then_do (dict_get pr ''pull_request'' (JObj [])) (\<lambda>pull_request.
         then_do (dict_get pull_request ''url'' JNull) (\<lambda>pr_detail_url.
           if \<not> truthy pr_detail_url then Inr (Inl NoDetailUrl)
           else
             then_do (github_request e (Url pr_detail_url)) (\<lambda>pr_details.
               if \<not> truthy pr_details \<or> \<not> is_dict pr_details then Inr (Inl NoValidDetails)
               else
                 (case review_target_branch pr_details of
                    Inl reason \<Rightarrow> Inr (Inl reason)
                  | Inr base_branch \<Rightarrow>
                      then_do (slice_to 50 pr_ttl) (\<lambda>shown.
                      then_do (get_pr_comments e pr_num username) (\<lambda>pr_comments.
                      then_do (for_each (comment_row pr pr_num pr_ttl author base_branch)
                                 pr_comments [])
                        (\<lambda>rows. Inr (Inr rows))))))))))))"

definition review_inner ::
  "env \<Rightarrow> string \<Rightarrow> json \<Rightarrow> comment_info list \<Rightarrow> error + comment_info list" where
  "review_inner e username pr batch_comments =
     then_do (review_item e username pr) (\<lambda>r.
       case r of Inl reason \<Rightarrow> Inr batch_comments
               | Inr rows \<Rightarrow> Inr (batch_comments @ rows))"

text \<open>One iteration of the outer loop (lines 172 to 258).\<close>

definition review_batch ::
  "env \<Rightarrow> string \<Rightarrow> string \<Rightarrow> json list \<Rightarrow> int \<Rightarrow> int \<Rightarrow>
   comment_info list \<times> json list \<times> (comment_progress, comment_info) files \<Rightarrow>
   error + comment_info list \<times> json list \<times> (comment_progress, comment_info) files" where
  "review_batch e username progress_file items batch_size i st =
     (case st of (all_comments, processed_prs, fs) \<Rightarrow>
        (let batch = py_slice items i (i + batch_size) in
         then_do (for_each (review_inner e username) batch []) (\<lambda>batch_comments.
           (let all_comments' = all_comments @ batch_comments;
                processed_prs' = processed_prs @ batch;
                progress_data = \<lparr>
                  c_total_prs = length items,
                  c_processed_count = length processed_prs',
                  c_comments_found = length all_comments',
                  c_processed = processed_prs',
                  c_all_comments = all_comments' \<rparr>
            in Inr (all_comments', processed_prs',
                    save_progress progress_data progress_file fs)))))"

text \<open>
  Lines 159 to 169: the state the outer loop starts from. A progress file, when there is
  one, gives the comments found so far, the processed PRs and the start index.
\<close>

definition review_resume ::
  "(comment_progress, comment_info) files \<Rightarrow> string \<Rightarrow>
   comment_info list \<times> json list \<times> nat" where
  "review_resume fs progress_file =
     (case load_progress progress_file fs of
        Some progress \<Rightarrow>
          (c_all_comments progress, c_processed progress, length (c_processed progress))
      | None \<Rightarrow> ([], [], 0))"

definition comment_progress_file :: "string \<Rightarrow> string" where
  "comment_progress_file now = ''comment_processing_progress_'' @ now @ ''.json''"

definition process_prs_for_comments ::
  "env \<Rightarrow> (comment_progress, comment_info) files \<Rightarrow> string \<Rightarrow> json list \<Rightarrow> string \<Rightarrow> int \<Rightarrow>
   error + (comment_info list \<times> string) \<times> (comment_progress, comment_info) files" where
  "process_prs_for_comments e fs now items username batch_size =
     (let progress_file = comment_progress_file now in
      case review_resume fs progress_file of (all_comments, processed_prs, start_index) \<Rightarrow>
        then_do (py_range (int start_index) (int (length items)) batch_size) (\<lambda>starts.
        then_do (for_each (review_batch e username progress_file items batch_size) starts
                   (all_comments, processed_prs, fs)) (\<lambda>(all_comments', processed_prs', fs').
          Inr ((all_comments', progress_file), fs'))))"

definition generate_final_report_review ::
  "(comment_progress, comment_info) files \<Rightarrow> string \<Rightarrow> comment_info list \<Rightarrow> string \<Rightarrow>
   string \<Rightarrow> string \<Rightarrow> error + string option \<times> (comment_progress, comment_info) files" where
  "generate_final_report_review fs timestamp all_comments progress_file sprint_name username =
     (if all_comments = [] then Inr (None, fs)
      else
        then_do (py_sort comment_info.created_at False all_comments) (\<lambda>sorted_comments.
          (let filename = ''csvs/'' @ username @ ''-comments-sprint-'' @ sprint_name
                 @ ''-'' @ timestamp @ ''.csv'';
               json_filename = ''csvs/'' @ username @ ''-comments-full-sprint-'' @ sprint_name
                 @ ''-'' @ timestamp @ ''.json'';
               fs1 = write_report json_filename sorted_comments
                       (write_report filename sorted_comments (fs\<lparr>csvs_dir := True\<rparr>))
           in if list_ex (\<lambda>c. unhashable (pr_number c)) sorted_comments then Inl TypeError
              else Inr (Some filename, remove_progress progress_file fs1))))"

text \<open>The parsed command line of review.py.\<close>

record review_args =
  rarg_org :: "string option"
  rarg_repo :: "string option"
  rarg_user :: "string option"
  rarg_sprint :: string
  rarg_batch_size :: int

text \<open>
  \<^verbatim>\<open>main\<close> of review.py. It rebinds the globals \<^verbatim>\<open>ORGANIZATION\<close> and
  \<^verbatim>\<open>REPOSITORY\<close>, which \<^verbatim>\<open>get_pr_comments\<close> reads.
\<close>

definition main_review ::
  "env \<Rightarrow> (comment_progress, comment_info) files \<Rightarrow> string \<Rightarrow> string \<Rightarrow> review_args \<Rightarrow>
   (error + int \<times> (comment_progress, comment_info) files) option" where
  "main_review e0 fs now timestamp args =
     (let e = e0\<lparr> ORGANIZATION := arg_or (rarg_org args) (ORGANIZATION e0),
                  REPOSITORY := arg_or (rarg_repo args) (REPOSITORY e0) \<rparr>;
          username = arg_or (rarg_user args) (USERNAME e0)
      in
      if token_missing e then Some (Inr (1, fs))
      else if ORGANIZATION e = [] \<or> REPOSITORY e = [] \<or> username = [] then Some (Inr (1, fs))
      else
        (case sprint_config e (rarg_sprint args) of
           None \<Rightarrow> Some (Inr (1, fs))
         | Some (start_date, end_date) \<Rightarrow>
             (let query = ''is:pr repo:'' @ ORGANIZATION e @ ''/'' @ REPOSITORY e
                    @ '' created:'' @ start_date @ ''..'' @ end_date
                    @ '' -author:'' @ username
              in case get_filtered_prs e query of
                   None \<Rightarrow> None
                 | Some (Inl err) \<Rightarrow> Some (Inl err)
                 | Some (Inr (items, total_count)) \<Rightarrow>
                     if items = [] then Some (Inr (0, fs))
                     else Some (
                       then_do (process_prs_for_comments e fs now items username
                                  (rarg_batch_size args))
                         (\<lambda>((all_comments, progress_file), fs1).
                       then_do (generate_final_report_review fs1 timestamp all_comments
                                  progress_file (rarg_sprint args) username)
                         (\<lambda>(report_filename, fs2). Inr (0, fs2)))))))"

text \<open>
  The commits the claim about the commit report speaks of: the committer name is exactly
  \<^verbatim>\<open>GitHub\<close>, or the first line of the message starts with \<^verbatim>\<open>Merge branch\<close>.
\<close>

definition is_merge_commit :: "json \<Rightarrow> bool" where
  "is_merge_commit commit =
     (let info = get_or commit ''commit'' (JObj []) in
      get_or (get_or info ''committer'' (JObj [])) ''name'' (JStr []) = JStr ''GitHub''
      \<or> (case get_or info ''message'' (JStr []) of
            JStr m \<Rightarrow> prefix ''Merge branch'' (first_line m)
          | _ \<Rightarrow> False))"

section \<open>The shape the two batch loops share\<close>

text \<open>
  The outer loops of \<^verbatim>\<open>process_prs_in_batches\<close> and
  \<^verbatim>\<open>process_prs_for_comments\<close> differ in the inner loop and in the keys of the
  progress file only. \<open>batch_step\<close> is one iteration with these two as parameters; it
  is shown below to be what \<open>pr_batch\<close> and \<open>review_batch\<close> are, and the properties
  of the loops are proved once for it.
\<close>

definition batch_step ::
  "('a \<Rightarrow> 'r list \<Rightarrow> error + 'r list) \<Rightarrow> ('r list \<Rightarrow> 'a list \<Rightarrow> 'p) \<Rightarrow> string \<Rightarrow>
   'a list \<Rightarrow> int \<Rightarrow> int \<Rightarrow> 'r list \<times> 'a list \<times> ('p, 'r) files \<Rightarrow>
   error + 'r list \<times> 'a list \<times> ('p, 'r) files" where
  "batch_step inner mk progress_file items batch_size i st =
     (case st of (found, processed_prs, fs) \<Rightarrow>
        (let batch = py_slice items i (i + batch_size) in
         then_do (for_each inner batch []) (\<lambda>batch_found.
           Inr (found @ batch_found, processed_prs @ batch,
                save_progress (mk (found @ batch_found) (processed_prs @ batch))
                  progress_file fs))))"

text \<open>The progress data each script writes after a batch.\<close>

definition comment_progress_of :: "nat \<Rightarrow> comment_info list \<Rightarrow> json list \<Rightarrow> comment_progress" where
  "comment_progress_of n all_comments processed_prs = \<lparr>
     c_total_prs = n, c_processed_count = length processed_prs,
     c_comments_found = length all_comments, c_processed = processed_prs,
     c_all_comments = all_comments \<rparr>"

definition pr_progress_of :: "nat \<Rightarrow> pr_info list \<Rightarrow> json list \<Rightarrow> pr_progress" where
  "pr_progress_of n found processed_prs = \<lparr>
     p_total_prs = n, p_processed_count = length processed_prs,
     p_release_prs_found = length found, p_processed = processed_prs,
     p_release_prs = found \<rparr>"

text \<open>
  What the inner loop of each script yields on a list of PRs taken as a single batch:
  the records of a run that starts from nothing.
\<close>

definition review_results :: "env \<Rightarrow> string \<Rightarrow> json list \<Rightarrow> error + comment_info list" where
  "review_results e username prs = for_each (review_inner e username) prs []"

definition pr_results :: "env \<Rightarrow> json list \<Rightarrow> error + pr_info list" where
  "pr_results e prs = for_each (pr_inner e) prs []"

section \<open>Pages as the paginators see them\<close>

text \<open>
  Notions used to state what the paginators return; the modelled code does not use them.
  \<open>search_response\<close> is the value \<^verbatim>\<open>github_request\<close> gives for a page of the
  search (None as \<open>JNull\<close>), \<open>page_items\<close> the items the loop takes from it (none
  when the request failed or the shape is wrong), \<open>accumulated\<close> the items of pages 1
  to \<open>n\<close> in fetch order. A page \<open>continues\<close> the crawl when it is a full page of a
  well-formed response whose \<^verbatim>\<open>total_count\<close> is still above the number of items
  accumulated with it. \<open>page_ok\<close> holds for a failed request and for an object whose
  \<^verbatim>\<open>total_count\<close> is a number. \<open>reported_total\<close> is the total the
  \<^verbatim>\<open>return\<close> statement takes from the last response. The same for the commit
  listing, whose pages are lists.
\<close>

definition search_response :: "env \<Rightarrow> string \<Rightarrow> nat \<Rightarrow> json" where
  "search_response e query page =
     (case urlopen e (SearchIssues query per_page page) of None \<Rightarrow> JNull | Some data \<Rightarrow> data)"

definition page_items :: "json \<Rightarrow> json list" where
  "page_items r = (case get_or r ''items'' (JArr []) of JArr its \<Rightarrow> its | _ \<Rightarrow> [])"

definition accumulated :: "env \<Rightarrow> string \<Rightarrow> nat \<Rightarrow> json list" where
  "accumulated e query n =
     concat (map (\<lambda>page. page_items (search_response e query page)) [1..<Suc n])"

definition page_ok :: "json \<Rightarrow> bool" where
  "page_ok r = (\<not> truthy r \<or> (is_dict r \<and> is_num (get_or r ''total_count'' (JNum 0))))"

definition continues :: "env \<Rightarrow> string \<Rightarrow> nat \<Rightarrow> bool" where
  "continues e query page =
     (let r = search_response e query page in
      truthy r \<and> is_dict r \<and> is_list (get_or r ''items'' (JArr []))
      \<and> per_page \<le> length (page_items r)
      \<and> is_num (get_or r ''total_count'' (JNum 0))
      \<and> int (length (accumulated e query page)) < num_val (get_or r ''total_count'' (JNum 0)))"

definition reported_total :: "json \<Rightarrow> nat \<Rightarrow> json" where
  "reported_total r n = (if truthy r then get_or r ''total_count'' (JNum (int n)) else JNum (int n))"

definition commit_response :: "env \<Rightarrow> (nat \<Rightarrow> request) \<Rightarrow> nat \<Rightarrow> json" where
  "commit_response e commits_url page =
     (case urlopen e (commits_url page) of None \<Rightarrow> JNull | Some data \<Rightarrow> data)"

definition list_items :: "json \<Rightarrow> json list" where
  "list_items r = (case r of JArr cs \<Rightarrow> cs | _ \<Rightarrow> [])"

definition accumulated_commits :: "env \<Rightarrow> (nat \<Rightarrow> request) \<Rightarrow> nat \<Rightarrow> json list" where
  "accumulated_commits e commits_url n =
     concat (map (\<lambda>page. list_items (commit_response e commits_url page)) [1..<Suc n])"

section \<open>Example data\<close>

definition example_env :: env where
  "example_env = \<lparr> GITHUB_TOKEN = Some ''t'', ORGANIZATION = ''o'', REPOSITORY = ''r'',
     USERNAME = ''dika'', sprint_config = Map.empty, urlopen = (\<lambda>_. None) \<rparr>"

definition example_commits :: "json list" where
  "example_commits =
     [JObj [(''sha'', JStr ''a1''),
            (''commit'', JObj [(''message'', JStr ''Merge pull request''),
                               (''committer'', JObj [(''name'', JStr ''GitHub'')])])],
      JObj [(''sha'', JStr ''b2''),
            (''commit'', JObj [(''message'', JStr ''Merge branch main into dev''),
                               (''committer'', JObj [(''name'', JStr ''dika'')])])],
      JObj [(''sha'', JStr ''c3''),
            (''commit'', JObj [(''message'', JStr ''Fix login''),
                               (''committer'', JObj [(''name'', JStr ''dika'')])])]]"

text \<open>
  A small network for the examples: the search returns the given items on page 1, and
  the details of a PR, addressed in the examples by the name of its base branch, target
  that branch.
\<close>

definition details_targeting :: "string \<Rightarrow> json" where
  "details_targeting b =
     JObj [(''base'', JObj [(''ref'', JStr b)]), (''head'', JObj [(''ref'', JStr ''feature'')]),
           (''additions'', JNum 10), (''deletions'', JNum 2)]"

definition example_item :: "int \<Rightarrow> string \<Rightarrow> json" where
  "example_item n b =
     JObj [(''number'', JNum n), (''title'', JStr ''Change''),
           (''user'', JObj [(''login'', JStr ''alice'')]),
           (''pull_request'', JObj [(''url'', JStr b)])]"

definition example_net :: "json list \<Rightarrow> request \<Rightarrow> json option" where
  "example_net found r =
     (case r of
        SearchIssues q n page \<Rightarrow>
          if page = 1
          then Some (JObj [(''items'', JArr found), (''total_count'', JNum (int (length found)))])
          else None
      | Url u \<Rightarrow> (case u of JStr b \<Rightarrow> Some (details_targeting b) | _ \<Rightarrow> None)
      | _ \<Rightarrow> None)"

definition example_run :: "json list \<Rightarrow> env" where
  "example_run found = \<lparr> GITHUB_TOKEN = Some ''t'', ORGANIZATION = ''o'', REPOSITORY = ''r'',
     USERNAME = ''dika'', sprint_config = [''224'' \<mapsto> (''2025-01-01'', ''2025-01-14'')],
     urlopen = example_net found \<rparr>"

definition no_files :: "('p, 'r) files" where
  "no_files = \<lparr> progress_files = Map.empty, report_files = Map.empty, csvs_dir = True \<rparr>"

definition example_args :: "string \<Rightarrow> pr_args" where
  "example_args p = \<lparr> arg_org = None, arg_repo = None, arg_user = None, arg_sprint = ''224'',
     arg_batch_size = 25, arg_branch_prefix = p \<rparr>"

definition example_pr_info :: "int \<Rightarrow> string \<Rightarrow> pr_info" where
  "example_pr_info n t = \<lparr>
     pr_info.number = JNum n, pr_info.title = JStr t, pr_info.target_branch = ''release/1'',
     pr_info.origin_branch = JStr ''feature'', pr_info.lines_added = JNum 1,
     pr_info.lines_deleted = JNum 0, pr_info.created_at = JStr [], pr_info.merged_at = JNull,
     pr_info.state = JStr ''open'', pr_info.url = JStr [] \<rparr>"

definition example_comment_info :: "string \<Rightarrow> string \<Rightarrow> comment_info" where
  "example_comment_info d t = \<lparr>
     pr_number = JNum 1, pr_title = JStr ''Change'', pr_author = ''alice'',
     comment_info.target_branch = ''staging'', pr_url = JStr [], comment_id = JNum 0,
     comment_body = JStr t, comment_full_body = JStr t,
     comment_info.created_at = JStr d, updated_at = JStr d, comment_url = JStr [] \<rparr>"

text \<open>The record pr.py builds for an example item under the example network.\<close>

definition example_found :: "int \<Rightarrow> string \<Rightarrow> pr_info" where
  "example_found n b = \<lparr>
     pr_info.number = JNum n, pr_info.title = JStr ''Change'', pr_info.target_branch = b,
     pr_info.origin_branch = JStr ''feature'', pr_info.lines_added = JNum 10,
     pr_info.lines_deleted = JNum 2, pr_info.created_at = JStr [], pr_info.merged_at = JNull,
     pr_info.state = JStr ''unknown'', pr_info.url = JStr [] \<rparr>"

text \<open>
  The files after the first batch of a run of pr.py with batch size 1 over two PRs that
  both target a release branch.
\<close>

definition example_checkpoint :: "(pr_progress, pr_info) files" where
  "example_checkpoint = \<lparr> progress_files = [''pr_processing_progress_n.json'' \<mapsto>
       \<lparr> p_total_prs = 2, p_processed_count = 1, p_release_prs_found = 1,
          p_processed = [example_item 1 ''release/1''],
          p_release_prs = [example_found 1 ''release/1''] \<rparr>],
     report_files = Map.empty, csvs_dir = True \<rparr>"

text \<open>
  Two more networks: one whose first search page is full and reports 250 results while
  every later request fails, and one whose search responses carry \<^verbatim>\<open>items\<close> that
  is not a list.
\<close>

definition example_truncated :: env where
  "example_truncated = example_env \<lparr> urlopen := (\<lambda>r.
     case r of
       SearchIssues q n page \<Rightarrow>
         if page = 1
         then Some (JObj [(''items'', JArr (replicate 100 (example_item 1 ''main''))), (''total_count'', JNum 250)])
         else None
     | _ \<Rightarrow> None) \<rparr>"

definition example_malformed :: env where
  "example_malformed = example_env \<lparr> urlopen := (\<lambda>r.
     case r of
       SearchIssues q n page \<Rightarrow> Some (JObj [(''items'', JStr ''none''), (''total_count'', JNum 5)])
     | _ \<Rightarrow> None) \<rparr>"

text \<open>
  A network with two pages of results: the first search page is full and reports a total
  of 120, the second holds the remaining 20 items; the commit listing has a full first
  page and 20 commits on the second.
\<close>

definition example_two_pages :: env where
  "example_two_pages = example_env \<lparr> urlopen := (\<lambda>r.
     case r of
       SearchIssues q n page \<Rightarrow>
         if page = 1
         then Some (JObj [(''items'', JArr (replicate 100 (example_item 1 ''main''))),
                          (''total_count'', JNum 120)])
         else if page = 2
         then Some (JObj [(''items'', JArr (replicate 20 (example_item 2 ''main''))),
                          (''total_count'', JNum 120)])
         else None
     | ListCommits org repo user since_date until_date n page \<Rightarrow>
         if page = 1 then Some (JArr (replicate 100 (JObj [(''sha'', JStr ''a1'')])))
         else if page = 2 then Some (JArr (replicate 20 (JObj [(''sha'', JStr ''b2'')])))
         else None
     | _ \<Rightarrow> None) \<rparr>"

section \<open>Basic facts about the helpers\<close>

lemma then_do_Inr [simp]: "then_do (Inr x) f = f x"
  by (simp add: then_do_def)

lemma then_do_Inl [simp]: "then_do (Inl e) f = Inl e"
  by (simp add: then_do_def)

lemma then_do_Inr_iff:
  "then_do m f = Inr y \<longleftrightarrow> (\<exists>x. m = Inr x \<and> f x = Inr y)"
  by (cases m) simp_all

lemma dict_get_Inr_iff:
  "dict_get j k d = Inr v \<longleftrightarrow> is_dict j \<and> v = get_or j k d"
  by (cases j) auto

lemma as_str_Inr_iff: "as_str j = Inr s \<longleftrightarrow> j = JStr s"
  by (cases j) auto

section \<open>The commit report leaves merge commits out\<close>

lemma commit_entry_skip:
  assumes "commit_entry e commit = Inr r"
  shows "r = None \<longleftrightarrow> is_merge_commit commit"
  using assms
  unfolding commit_entry_def is_merge_commit_def startswith_def
  by (auto simp: then_do_Inr_iff dict_get_Inr_iff as_str_Inr_iff Let_def split: if_splits)

lemma commit_entry_sha:
  assumes "commit_entry e commit = Inr (Some cd)"
  shows "sha cd = get_or commit ''sha'' (JStr [])"
  using assms
  unfolding commit_entry_def
  by (auto simp: then_do_Inr_iff dict_get_Inr_iff as_str_Inr_iff Let_def split: if_splits)

lemma listing_acc:
  assumes "for_each (listing_body e) commits acc = Inr out"
  shows "\<exists>new. out = acc @ new
     \<and> map sha new =
         map (\<lambda>c. get_or c ''sha'' (JStr [])) (filter (\<lambda>c. \<not> is_merge_commit c) commits)
     \<and> (\<forall>c\<in>set commits. \<exists>r. commit_entry e c = Inr r \<and> (r = None \<longleftrightarrow> is_merge_commit c))"
  using assms
proof (induction commits arbitrary: acc)
  case Nil
  then show ?case by simp
next
  case (Cons c cs)
  from Cons.prems obtain mid where
    step: "listing_body e c acc = Inr mid" and rest: "for_each (listing_body e) cs mid = Inr out"
    by (auto split: sum.splits)
  from step obtain r where r: "commit_entry e c = Inr r"
    and mid: "mid = (case r of None \<Rightarrow> acc | Some cd \<Rightarrow> acc @ [cd])"
    by (auto simp: listing_body_def then_do_Inr_iff split: option.splits)
  have skip: "r = None \<longleftrightarrow> is_merge_commit c"
    using r by (rule commit_entry_skip)
  from Cons.IH[OF rest] obtain new where
    out: "out = mid @ new" and
    shas: "map sha new =
        map (\<lambda>c. get_or c ''sha'' (JStr [])) (filter (\<lambda>c. \<not> is_merge_commit c) cs)" and
    each: "\<forall>c\<in>set cs. \<exists>r. commit_entry e c = Inr r \<and> (r = None \<longleftrightarrow> is_merge_commit c)"
    by blast
  show ?case
  proof (cases r)
    case None
    with skip mid out shas each r show ?thesis
      by auto
  next
    case (Some cd)
    with r have "sha cd = get_or c ''sha'' (JStr [])"
      by (simp add: commit_entry_sha)
    with Some skip mid out shas each r show ?thesis
      by auto
  qed
qed

text \<open>
  Claim C10. When the commit listing returns, every fetched commit went through the loop
  body without an exception, the body appended no entry exactly for the commits whose
  committer name is \<^verbatim>\<open>GitHub\<close> or whose first message line starts with
  \<^verbatim>\<open>Merge branch\<close>, and the result holds one entry, in order, for each of the
  other commits (identified here by the \<^verbatim>\<open>sha\<close> the entry carries).
\<close>

theorem merge_commit_exclusion:
  assumes "process_commits_for_listing e commits = Inr commit_list"
  shows "map sha commit_list =
           map (\<lambda>c. get_or c ''sha'' (JStr [])) (filter (\<lambda>c. \<not> is_merge_commit c) commits)
       \<and> (\<forall>c\<in>set commits. \<exists>r. commit_entry e c = Inr r \<and> (r = None \<longleftrightarrow> is_merge_commit c))"
  using listing_acc[of e commits "[]" commit_list] assms
  unfolding process_commits_for_listing_def
  by auto

theorem merge_commit_exclusion_witness:
  "process_commits_for_listing example_env example_commits =
     Inr [\<lparr> sha = JStr ''c3'', short_sha = JStr ''c3'', message = ''Fix login'',
            full_message = ''Fix login'', author_name = JStr [], author_email = JStr [],
            author_date = JStr [], committer_name = JStr ''dika'', committer_date = JStr [],
            lines_added = JNum 0, lines_deleted = JNum 0, files_changed = 0, url = JStr [] \<rparr>]
   \<and> map (\<lambda>c. get_or c ''sha'' (JStr []))
        (filter (\<lambda>c. \<not> is_merge_commit c) example_commits) = [JStr ''c3'']"
proof -
  have run: "process_commits_for_listing example_env example_commits =
     Inr [\<lparr> sha = JStr ''c3'', short_sha = JStr ''c3'', message = ''Fix login'',
            full_message = ''Fix login'', author_name = JStr [], author_email = JStr [],
            author_date = JStr [], committer_name = JStr ''dika'', committer_date = JStr [],
            lines_added = JNum 0, lines_deleted = JNum 0, files_changed = 0, url = JStr [] \<rparr>]"
    by (simp add: process_commits_for_listing_def listing_body_def commit_entry_def
        commit_stats_def Let_def first_line_def startswith_def example_env_def
        example_commits_def)
  from merge_commit_exclusion[OF run] run show ?thesis
    by simp
qed

section \<open>Self-authored PRs in the comment report\<close>

text \<open>
  Claim C7. A PR whose author login equals the target username, letter case aside, ends
  the loop body of the comment report at the self-authorship check: whatever else the
  item holds and whatever the network would answer, it is skipped as self-authored and
  adds no record to the batch.
\<close>

theorem self_authored_rejected:
  assumes "get_or pr ''user'' JNull = JObj u"
    and "get_or (JObj u) ''login'' (JStr []) = JStr login"
    and "lower login = lower username"
  shows "review_item e username pr = Inr (Inl SelfAuthored)
       \<and> review_inner e username pr batch_comments = Inr batch_comments"
proof -
  from assms(1) obtain kvs where pr: "pr = JObj kvs"
    by (cases pr) simp_all
  have "review_item e username pr = Inr (Inl SelfAuthored)"
    using assms unfolding review_item_def pr by simp
  then show ?thesis
    by (simp add: review_inner_def)
qed

theorem self_authored_rejected_witness:
  "review_item example_env ''dika-paper''
      (JObj [(''number'', JNum 7), (''user'', JObj [(''login'', JStr ''Dika-Paper'')])])
     = Inr (Inl SelfAuthored)
   \<and> review_inner example_env ''dika-paper''
      (JObj [(''number'', JNum 7), (''user'', JObj [(''login'', JStr ''Dika-Paper'')])]) []
     = Inr []"
  using self_authored_rejected[of
      "JObj [(''number'', JNum 7), (''user'', JObj [(''login'', JStr ''Dika-Paper'')])]"
      "[(''login'', JStr ''Dika-Paper'')]" "''Dika-Paper''" "''dika-paper''" example_env "[]"]
  by (simp add: lower_def lower_char_def)

section \<open>The target-branch check and the runs of pr.py\<close>

lemma pr_item_ex: "pr_item (example_run found) (example_item n b) =
   (if prefix ''release/'' b then Inr (Inr \<lparr>
                        pr_info.number = JNum n,
                        pr_info.title = JStr ''Change'',
                        pr_info.target_branch = b,
                        pr_info.origin_branch = JStr ''feature'',
                        pr_info.lines_added = JNum 10,
                        pr_info.lines_deleted = JNum 2,
                        pr_info.created_at = JStr [],
                        pr_info.merged_at = JNull,
                        pr_info.state = JStr ''unknown'',
                        pr_info.url = JStr [] \<rparr>) else if b = [] then Inr (Inl NoDetailUrl) else Inr (Inl (Targeting (JStr b))))"
  by (simp add: pr_item_def example_run_def example_item_def example_net_def github_request_def
      token_missing_def details_targeting_def pr_target_branch_def startswith_def Let_def or_zero_def)

text \<open>
  Against claim C2 as stated: the PR report skips a PR whose base branch is
  \<^verbatim>\<open>staging\<close>.
\<close>

theorem staging_rejected_by_pr_report:
  "pr_item (example_run []) (example_item 1 ''staging'') = Inr (Inl (Targeting (JStr ''staging'')))"
  by (simp add: pr_item_ex)

lemma search_ex:
  "length found < 100 \<Longrightarrow> found \<noteq> [] \<Longrightarrow> search_pages (example_run found) q (Suc 0) [] = Some (Inr (found, JNum (int (length found))))"
  apply (subst search_pages.simps)
  apply (simp add: example_run_def example_net_def github_request_def token_missing_def
      search_return_def per_page_def Let_def)
  done

lemma range_ex: "py_range 0 2 25 = Inr [0]" "py_range 0 1 25 = Inr [0]"
  by (simp_all add: py_range_def range_values_def range_len_def)

lemma example_run_simps:
  "token_missing (example_run found) = False"
  "ORGANIZATION (example_run found) = ''o''"
  "REPOSITORY (example_run found) = ''r''"
  "USERNAME (example_run found) = ''dika''"
  "sprint_config (example_run found) ''224'' = Some (''2025-01-01'', ''2025-01-14'')"
  by (simp_all add: example_run_def token_missing_def)

text \<open>
  Claim C3 at a failing input. With \<^verbatim>\<open>--branch-prefix hotfix/\<close> and two PRs
  found, one targeting \<^verbatim>\<open>hotfix/1\<close> and one targeting \<^verbatim>\<open>release/1.2\<close>, the
  report of pr.py holds the PR that targets \<^verbatim>\<open>release/1.2\<close> and not the one that
  targets \<^verbatim>\<open>hotfix/1\<close>: the prefix given on the command line is not used.
\<close>

theorem branch_prefix_ignored:
  "main_pr (example_run [example_item 1 ''hotfix/1'', example_item 2 ''release/1.2''])
      no_files ''n'' ''t'' (example_args ''hotfix/'')
   = Some (Inr (0, \<lparr> progress_files = Map.empty,
        report_files = [''csvs/dika-pr-sprint-224-t.csv'' \<mapsto> [\<lparr>
                        pr_info.number = JNum 2,
                        pr_info.title = JStr ''Change'',
                        pr_info.target_branch = ''release/1.2'',
                        pr_info.origin_branch = JStr ''feature'',
                        pr_info.lines_added = JNum 10,
                        pr_info.lines_deleted = JNum 2,
                        pr_info.created_at = JStr [],
                        pr_info.merged_at = JNull,
                        pr_info.state = JStr ''unknown'',
                        pr_info.url = JStr [] \<rparr>]], csvs_dir = True \<rparr>))"
  apply (simp add: main_pr_def get_all_prs_fast_def search_ex example_args_def arg_or_def Let_def example_run_simps)
  apply (simp add: process_prs_in_batches_def Let_def pr_resume_def load_progress_def no_files_def range_ex)
  apply (simp add: pr_batch_def Let_def py_slice_def slice_bound_def pr_inner_def pr_item_ex)
  apply (simp add: generate_final_report_pr_def py_sort_def save_progress_def pr_row_check_def Let_def write_report_def remove_progress_def)
  done

text \<open>
  Claim C6 at a failing input. One PR is found and it targets \<^verbatim>\<open>main\<close>: the
  single batch is processed and its progress file written, no PR matches,
  \<^verbatim>\<open>generate_final_report\<close> returns before its clean-up, and \<^verbatim>\<open>main\<close> ends
  with exit code 0 while the progress file still exists.
\<close>

theorem checkpoint_left_when_nothing_matches:
  "main_pr (example_run [example_item 1 ''main'']) no_files ''n'' ''t'' (example_args ''release/'')
   = Some (Inr (0, \<lparr> progress_files = [''pr_processing_progress_n.json'' \<mapsto>
         \<lparr> p_total_prs = 1, p_processed_count = 1, p_release_prs_found = 0,
            p_processed = [example_item 1 ''main''], p_release_prs = [] \<rparr>],
        report_files = Map.empty, csvs_dir = True \<rparr>))"
  apply (simp add: main_pr_def get_all_prs_fast_def search_ex example_args_def arg_or_def Let_def example_run_simps)
  apply (simp add: process_prs_in_batches_def Let_def pr_resume_def load_progress_def no_files_def range_ex pr_progress_file_def)
  apply (simp add: pr_batch_def Let_def py_slice_def slice_bound_def pr_inner_def pr_item_ex)
  apply (simp add: generate_final_report_pr_def save_progress_def)
  done

text \<open>
  When the report step does write a report, it removes the progress file; the early
  return on an empty result does not.
\<close>

lemma checkpoint_removed_with_report:
  "generate_final_report_pr fs ts prs pf sn = Inr (Some filename, fs')
     \<Longrightarrow> progress_files fs' pf = None"
  "generate_final_report_review cfs ts cs pf sn u = Inr (Some filename, cfs')
     \<Longrightarrow> progress_files cfs' pf = None"
  by (auto simp: generate_final_report_pr_def generate_final_report_review_def
      then_do_Inr_iff Let_def remove_progress_def split: if_splits)

text \<open>No run of pr.py depends on the branch prefix of the command line.\<close>

lemma main_pr_ignores_branch_prefix: "main_pr e fs now ts (args\<lparr>arg_branch_prefix := p\<rparr>) = main_pr e fs now ts args"
  by (simp add: main_pr_def Let_def split: option.splits sum.splits prod.splits)

text \<open>
  Claim C2, amended. On PR details whose \<^verbatim>\<open>base\<close> is a mapping with the string
  \<^verbatim>\<open>ref\<close>: the comment report accepts \<^verbatim>\<open>staging\<close> and \<^verbatim>\<open>release/1.2\<close>
  and rejects \<^verbatim>\<open>main\<close> and \<^verbatim>\<open>Release/x\<close>; the PR report accepts
  \<^verbatim>\<open>release/1.2\<close> and rejects \<^verbatim>\<open>staging\<close>, \<^verbatim>\<open>main\<close> and
  \<^verbatim>\<open>Release/x\<close>.
\<close>

theorem branch_predicate:
  assumes "get_or pr_details ''base'' JNull = JObj b"
    and "get_or (JObj b) ''ref'' (JStr []) = JStr r"
  shows "(r = ''staging'' \<longrightarrow> review_target_branch pr_details = Inr r
                          \<and> pr_target_branch pr_details = Inl (Targeting (JStr r)))
       \<and> (r = ''release/1.2'' \<longrightarrow> review_target_branch pr_details = Inr r
                          \<and> pr_target_branch pr_details = Inr r)
       \<and> (r = ''main'' \<longrightarrow> review_target_branch pr_details = Inl (Targeting (JStr r))
                          \<and> pr_target_branch pr_details = Inl (Targeting (JStr r)))
       \<and> (r = ''Release/x'' \<longrightarrow> review_target_branch pr_details = Inl (Targeting (JStr r))
                          \<and> pr_target_branch pr_details = Inl (Targeting (JStr r)))"
  using assms
  by (simp add: review_target_branch_def pr_target_branch_def startswith_def Let_def del: get_or.simps)

theorem branch_predicate_witness:
  "review_target_branch (details_targeting ''staging'') = Inr ''staging''
   \<and> pr_target_branch (details_targeting ''staging'') = Inl (Targeting (JStr ''staging''))"
  using branch_predicate[of "details_targeting ''staging''"
      "[(''ref'', JStr ''staging'')]" "''staging''"]
  by (simp add: details_targeting_def)

section \<open>The order of the final report\<close>

lemma stable_sort_mset [simp]: "mset (stable_sort k r xs) = mset xs"
  by (simp add: stable_sort_def)

lemma stable_sort_stable:
  "filter (\<lambda>x. k x = a) (stable_sort k r xs) = filter (\<lambda>x. k x = a) xs"
  by (simp add: stable_sort_def sort_key_stable rev_filter flip: rev_filter)

lemma stable_sort_ascending: "sorted (map k (stable_sort k False xs))"
  by (simp add: stable_sort_def)

lemma stable_sort_descending: "sorted (rev (map k (stable_sort k True xs)))"
  by (simp add: stable_sort_def rev_map)

lemma stable_sort_short: "length xs \<le> 1 \<Longrightarrow> stable_sort k r xs = xs"
  by (cases xs) (simp_all add: stable_sort_def)

lemma sort_key_determined:
  assumes "mset xs = mset ys" and "\<And>a. filter (\<lambda>x. k x = a) xs = filter (\<lambda>x. k x = a) ys"
  shows "sort_key k xs = sort_key k ys"
proof (rule properties_for_sort_key)
  show "mset (sort_key k ys) = mset xs" using assms(1) by simp
  show "sorted (map k (sort_key k ys))" by simp
  fix a assume "a \<in> set (sort_key k ys)"
  have "filter (\<lambda>x. k a = k x) (sort_key k ys) = filter (\<lambda>x. k x = k a) (sort_key k ys)"
    by (rule filter_cong) auto
  also have "\<dots> = filter (\<lambda>x. k x = k a) xs"
    by (simp add: sort_key_stable assms(2))
  also have "\<dots> = filter (\<lambda>x. k a = k x) xs"
    by (rule filter_cong) auto
  finally show "filter (\<lambda>x. k a = k x) (sort_key k ys) = filter (\<lambda>x. k a = k x) xs" .
qed

lemma stable_sort_determined:
  assumes "mset xs = mset ys" and "\<And>a. filter (\<lambda>x. k x = a) xs = filter (\<lambda>x. k x = a) ys"
  shows "stable_sort k r xs = stable_sort k r ys"
proof -
  have "sort_key k xs = sort_key k ys"
    using assms by (rule sort_key_determined)
  moreover have "sort_key k (rev xs) = sort_key k (rev ys)"
  proof (rule sort_key_determined)
    show "mset (rev xs) = mset (rev ys)" using assms(1) by simp
    show "filter (\<lambda>x. k x = a) (rev xs) = filter (\<lambda>x. k x = a) (rev ys)" for a
      using assms(2)[of a] by (simp flip: rev_filter)
  qed
  ultimately show ?thesis by (simp add: stable_sort_def)
qed

lemma py_sort_num:
  assumes "py_sort key r xs = Inr ys" and "\<forall>x\<in>set xs. is_num (key x)"
  shows "ys = stable_sort (\<lambda>x. num_val (key x)) r xs"
  using assms
  by (auto simp: py_sort_def stable_sort_short list_all_iff split: if_splits)

lemma py_sort_str:
  assumes "py_sort key r xs = Inr ys" and "\<forall>x\<in>set xs. is_str (key x)"
  shows "ys = stable_sort (\<lambda>x. str_val (key x)) r xs"
proof (cases "length xs \<le> 1")
  case True
  with assms show ?thesis by (simp add: py_sort_def stable_sort_short)
next
  case False
  then obtain x where "x \<in> set xs" by (cases xs) auto
  with assms(2) have "is_str (key x)" by blast
  then have "\<not> is_num (key x)" by (cases "key x") simp_all
  with \<open>x \<in> set xs\<close> have "\<not> list_all (\<lambda>x. is_num (key x)) xs"
    by (auto simp: list_all_iff)
  with False assms show ?thesis
    by (auto simp: py_sort_def list_all_iff split: if_splits)
qed

lemma pr_report_sorted:
  assumes "generate_final_report_pr fs ts prs pf sn = Inr (Some filename, fs')"
    and "\<forall>p\<in>set prs. is_num (pr_info.number p)"
  shows "report_files fs' filename = Some (stable_sort (\<lambda>p. num_val (pr_info.number p)) True prs)"
proof -
  from assms(1) have ne: "prs \<noteq> []"
    by (auto simp: generate_final_report_pr_def)
  from assms(1) ne obtain sorted_prs where
    srt: "py_sort pr_info.number True prs = Inr sorted_prs" and
    fin: "filename = ''csvs/dika-pr-sprint-'' @ sn @ ''-'' @ ts @ ''.csv''" and
    fs': "fs' = remove_progress pf (write_report filename sorted_prs fs)"
    by (auto simp: generate_final_report_pr_def then_do_Inr_iff Let_def split: if_splits)
  from py_sort_num[OF srt assms(2)] fs' show ?thesis
    by (simp add: remove_progress_def write_report_def)
qed

lemma comment_report_sorted:
  assumes "generate_final_report_review fs ts cs pf sn username = Inr (Some filename, fs')"
    and "\<forall>c\<in>set cs. is_str (comment_info.created_at c)"
  shows "report_files fs' filename = Some (stable_sort (\<lambda>c. str_val (comment_info.created_at c)) False cs)"
proof -
  from assms(1) have ne: "cs \<noteq> []"
    by (auto simp: generate_final_report_review_def)
  from assms(1) ne obtain sorted_comments where
    srt: "py_sort comment_info.created_at False cs = Inr sorted_comments" and
    fs': "fs' = remove_progress pf
                  (write_report (''csvs/'' @ username @ ''-comments-full-sprint-'' @ sn @ ''-'' @ ts @ ''.json'') sorted_comments
                    (write_report filename sorted_comments (fs\<lparr>csvs_dir := True\<rparr>)))"
    by (auto simp: generate_final_report_review_def then_do_Inr_iff Let_def split: if_splits)
  from py_sort_str[OF srt assms(2)] fs' show ?thesis
    by (simp add: remove_progress_def write_report_def)
qed

lemma short_mset_eq:
  assumes "mset xs = mset ys" and "length xs \<le> 1"
  shows "xs = ys"
proof (cases xs)
  case Nil
  with assms show ?thesis by simp
next
  case (Cons a as)
  with assms(2) have xs: "xs = [a]" by simp
  with assms(1) have "mset ys = {#a#}" by simp
  then have "ys = [a]" by (simp add: mset_single_iff_right)
  with xs show ?thesis by simp
qed

lemma py_sort_num_determined:
  assumes "mset xs = mset ys"
    and "\<forall>x\<in>set ys. is_num (key x)"
    and "\<And>a. filter (\<lambda>x. num_val (key x) = a) xs = filter (\<lambda>x. num_val (key x) = a) ys"
  shows "py_sort key r xs = py_sort key r ys"
proof (cases "length xs \<le> 1")
  case True
  with assms(1) have "xs = ys" by (rule short_mset_eq)
  then show ?thesis by simp
next
  case False
  have len: "length xs = length ys" using assms(1) by (rule mset_eq_length)
  have set: "set xs = set ys" using assms(1) by (rule mset_eq_setD)
  have "stable_sort (\<lambda>x. num_val (key x)) r xs = stable_sort (\<lambda>x. num_val (key x)) r ys"
    using assms(1,3) by (rule stable_sort_determined)
  with False len set assms(2) show ?thesis
    by (simp add: py_sort_def list_all_iff)
qed

lemma py_sort_str_determined:
  assumes "mset xs = mset ys"
    and "\<forall>x\<in>set ys. is_str (key x)"
    and "\<And>a. filter (\<lambda>x. str_val (key x) = a) xs = filter (\<lambda>x. str_val (key x) = a) ys"
  shows "py_sort key r xs = py_sort key r ys"
proof (cases "length xs \<le> 1")
  case True
  with assms(1) have "xs = ys" by (rule short_mset_eq)
  then show ?thesis by simp
next
  case False
  have len: "length xs = length ys" using assms(1) by (rule mset_eq_length)
  have set: "set xs = set ys" using assms(1) by (rule mset_eq_setD)
  have "stable_sort (\<lambda>x. str_val (key x)) r xs = stable_sort (\<lambda>x. str_val (key x)) r ys"
    using assms(1,3) by (rule stable_sort_determined)
  moreover from False len obtain y where y: "y \<in> set ys" by (cases ys) auto
  with assms(2) have "is_str (key y)" by blast
  then have "\<not> is_num (key y)" by (cases "key y") simp_all
  with y have "\<not> (\<forall>x\<in>set ys. is_num (key x))" by blast
  ultimately show ?thesis
    using False len set assms(2) by (auto simp: py_sort_def list_all_iff)
qed

lemma pr_report_determined:
  assumes "mset prs2 = mset prs"
    and "\<forall>p\<in>set prs. is_num (pr_info.number p)"
    and "\<And>k. filter (\<lambda>p. num_val (pr_info.number p) = k) prs2
            = filter (\<lambda>p. num_val (pr_info.number p) = k) prs"
  shows "generate_final_report_pr fs ts prs2 pf sn = generate_final_report_pr fs ts prs pf sn"
proof -
  have "py_sort pr_info.number True prs2 = py_sort pr_info.number True prs"
    using assms by (rule py_sort_num_determined)
  moreover have "prs2 = [] \<longleftrightarrow> prs = []"
    using assms(1) by (metis mset_zero_iff)
  ultimately show ?thesis
    by (simp add: generate_final_report_pr_def)
qed

lemma comment_report_determined:
  assumes "mset cs2 = mset cs"
    and "\<forall>c\<in>set cs. is_str (comment_info.created_at c)"
    and "\<And>k. filter (\<lambda>c. str_val (comment_info.created_at c) = k) cs2
            = filter (\<lambda>c. str_val (comment_info.created_at c) = k) cs"
  shows "generate_final_report_review fs ts cs2 pf sn u = generate_final_report_review fs ts cs pf sn u"
proof -
  have "py_sort comment_info.created_at False cs2 = py_sort comment_info.created_at False cs"
    using assms by (rule py_sort_str_determined)
  moreover have "cs2 = [] \<longleftrightarrow> cs = []"
    using assms(1) by (metis mset_zero_iff)
  ultimately show ?thesis
    by (simp add: generate_final_report_review_def)
qed

text \<open>
  Claim C9. When the report step writes a report, the records in it are the accumulated
  records ordered by the key alone (PR number descending in pr.py, comment creation
  timestamp ascending in review.py), records with equal keys keep their accumulation
  order, and any other accumulation order of the same records that agrees on the order
  of the records with equal keys gives the same report. The keys are taken to be
  numbers in pr.py and strings in review.py, as the API delivers them.
\<close>

theorem final_sort_order:
  "(generate_final_report_pr fs ts prs pf sn = Inr (Some filename, fs')
      \<and> (\<forall>p\<in>set prs. is_num (pr_info.number p))
    \<longrightarrow> (\<exists>rows. report_files fs' filename = Some rows
          \<and> sorted (rev (map (\<lambda>p. num_val (pr_info.number p)) rows))
          \<and> mset rows = mset prs
          \<and> (\<forall>k. filter (\<lambda>p. num_val (pr_info.number p) = k) rows
                   = filter (\<lambda>p. num_val (pr_info.number p) = k) prs))
        \<and> (\<forall>prs2. mset prs2 = mset prs
               \<and> (\<forall>k. filter (\<lambda>p. num_val (pr_info.number p) = k) prs2
                      = filter (\<lambda>p. num_val (pr_info.number p) = k) prs)
             \<longrightarrow> generate_final_report_pr fs ts prs2 pf sn = Inr (Some filename, fs')))
 \<and> (generate_final_report_review cfs cts cs cpf csn username = Inr (Some cfilename, cfs')
      \<and> (\<forall>c\<in>set cs. is_str (comment_info.created_at c))
    \<longrightarrow> (\<exists>rows. report_files cfs' cfilename = Some rows
          \<and> sorted (map (\<lambda>c. str_val (comment_info.created_at c)) rows)
          \<and> mset rows = mset cs
          \<and> (\<forall>k. filter (\<lambda>c. str_val (comment_info.created_at c) = k) rows
                   = filter (\<lambda>c. str_val (comment_info.created_at c) = k) cs))
        \<and> (\<forall>cs2. mset cs2 = mset cs
               \<and> (\<forall>k. filter (\<lambda>c. str_val (comment_info.created_at c) = k) cs2
                      = filter (\<lambda>c. str_val (comment_info.created_at c) = k) cs)
             \<longrightarrow> generate_final_report_review cfs cts cs2 cpf csn username
                   = Inr (Some cfilename, cfs')))"
proof (intro conjI impI)
  assume h: "generate_final_report_pr fs ts prs pf sn = Inr (Some filename, fs')
      \<and> (\<forall>p\<in>set prs. is_num (pr_info.number p))"
  then have "report_files fs' filename
      = Some (stable_sort (\<lambda>p. num_val (pr_info.number p)) True prs)"
    using pr_report_sorted[of fs ts prs pf sn filename fs'] by blast
  then show "\<exists>rows. report_files fs' filename = Some rows
          \<and> sorted (rev (map (\<lambda>p. num_val (pr_info.number p)) rows))
          \<and> mset rows = mset prs
          \<and> (\<forall>k. filter (\<lambda>p. num_val (pr_info.number p) = k) rows
                   = filter (\<lambda>p. num_val (pr_info.number p) = k) prs)"
    by (simp add: stable_sort_stable stable_sort_descending)
  show "\<forall>prs2. mset prs2 = mset prs
               \<and> (\<forall>k. filter (\<lambda>p. num_val (pr_info.number p) = k) prs2
                      = filter (\<lambda>p. num_val (pr_info.number p) = k) prs)
             \<longrightarrow> generate_final_report_pr fs ts prs2 pf sn = Inr (Some filename, fs')"
    using h pr_report_determined[of _ prs fs ts pf sn] by auto
next
  assume h: "generate_final_report_review cfs cts cs cpf csn username = Inr (Some cfilename, cfs')
      \<and> (\<forall>c\<in>set cs. is_str (comment_info.created_at c))"
  then have "report_files cfs' cfilename
      = Some (stable_sort (\<lambda>c. str_val (comment_info.created_at c)) False cs)"
    using comment_report_sorted[of cfs cts cs cpf csn username cfilename cfs'] by blast
  then show "\<exists>rows. report_files cfs' cfilename = Some rows
          \<and> sorted (map (\<lambda>c. str_val (comment_info.created_at c)) rows)
          \<and> mset rows = mset cs
          \<and> (\<forall>k. filter (\<lambda>c. str_val (comment_info.created_at c) = k) rows
                   = filter (\<lambda>c. str_val (comment_info.created_at c) = k) cs)"
    by (simp add: stable_sort_stable stable_sort_ascending)
  show "\<forall>cs2. mset cs2 = mset cs
               \<and> (\<forall>k. filter (\<lambda>c. str_val (comment_info.created_at c) = k) cs2
                      = filter (\<lambda>c. str_val (comment_info.created_at c) = k) cs)
             \<longrightarrow> generate_final_report_review cfs cts cs2 cpf csn username
                   = Inr (Some cfilename, cfs')"
    using h comment_report_determined[of _ cs cfs cts cpf csn username] by auto
qed

lemma ex_pr_run:
  "generate_final_report_pr no_files ''t''
      [example_pr_info 3 ''a'', example_pr_info 5 ''b'', example_pr_info 3 ''c''] ''p'' ''224''
   = Inr (Some ''csvs/dika-pr-sprint-224-t.csv'',
       \<lparr> progress_files = Map.empty,
          report_files = [''csvs/dika-pr-sprint-224-t.csv'' \<mapsto>
            [example_pr_info 5 ''b'', example_pr_info 3 ''a'', example_pr_info 3 ''c'']],
          csvs_dir = True \<rparr>)"
  by (simp add: generate_final_report_pr_def py_sort_def stable_sort_def no_files_def
        pr_row_check_def write_report_def remove_progress_def example_pr_info_def Let_def)

lemma ex_review_run:
  "generate_final_report_review no_files ''t''
      [example_comment_info ''2025-01-03'' ''a'', example_comment_info ''2025-01-02'' ''b'',
       example_comment_info ''2025-01-03'' ''c''] ''p'' ''224'' ''dika''
   = Inr (Some ''csvs/dika-comments-sprint-224-t.csv'',
       \<lparr> progress_files = Map.empty,
          report_files = [''csvs/dika-comments-sprint-224-t.csv'' \<mapsto>
            [example_comment_info ''2025-01-02'' ''b'', example_comment_info ''2025-01-03'' ''a'',
             example_comment_info ''2025-01-03'' ''c''],
            ''csvs/dika-comments-full-sprint-224-t.json'' \<mapsto>
            [example_comment_info ''2025-01-02'' ''b'', example_comment_info ''2025-01-03'' ''a'',
             example_comment_info ''2025-01-03'' ''c'']],
          csvs_dir = True \<rparr>)"
  by (simp add: generate_final_report_review_def py_sort_def stable_sort_def no_files_def
        write_report_def remove_progress_def example_comment_info_def Let_def)

theorem final_sort_order_witness:
  "(\<exists>fs' rows.
      generate_final_report_pr no_files ''t''
        [example_pr_info 3 ''a'', example_pr_info 5 ''b'', example_pr_info 3 ''c''] ''p'' ''224''
        = Inr (Some ''csvs/dika-pr-sprint-224-t.csv'', fs')
      \<and> report_files fs' ''csvs/dika-pr-sprint-224-t.csv'' = Some rows
      \<and> sorted (rev (map (\<lambda>p. num_val (pr_info.number p)) rows))
      \<and> mset rows
          = mset [example_pr_info 3 ''a'', example_pr_info 5 ''b'', example_pr_info 3 ''c'']
      \<and> generate_final_report_pr no_files ''t''
          [example_pr_info 3 ''a'', example_pr_info 3 ''c'', example_pr_info 5 ''b''] ''p'' ''224''
        = Inr (Some ''csvs/dika-pr-sprint-224-t.csv'', fs'))
   \<and> (\<exists>fs' rows.
      generate_final_report_review no_files ''t''
        [example_comment_info ''2025-01-03'' ''a'', example_comment_info ''2025-01-02'' ''b'',
         example_comment_info ''2025-01-03'' ''c''] ''p'' ''224'' ''dika''
        = Inr (Some ''csvs/dika-comments-sprint-224-t.csv'', fs')
      \<and> report_files fs' ''csvs/dika-comments-sprint-224-t.csv'' = Some rows
      \<and> sorted (map (\<lambda>c. str_val (comment_info.created_at c)) rows))"
proof -
  let ?prs = "[example_pr_info 3 ''a'', example_pr_info 5 ''b'', example_pr_info 3 ''c'']"
  let ?prs2 = "[example_pr_info 3 ''a'', example_pr_info 3 ''c'', example_pr_info 5 ''b'']"
  let ?cs = "[example_comment_info ''2025-01-03'' ''a'', example_comment_info ''2025-01-02'' ''b'',
       example_comment_info ''2025-01-03'' ''c'']"
  let ?F = "''csvs/dika-pr-sprint-224-t.csv''"
  let ?CF = "''csvs/dika-comments-sprint-224-t.csv''"
  obtain FS where run: "generate_final_report_pr no_files ''t'' ?prs ''p'' ''224''
      = Inr (Some ?F, FS)"
    using ex_pr_run by blast
  obtain CFS where crun: "generate_final_report_review no_files ''t'' ?cs ''p'' ''224'' ''dika''
      = Inr (Some ?CF, CFS)"
    using ex_review_run by blast
  have nums: "\<forall>p\<in>set ?prs. is_num (pr_info.number p)"
    by (simp add: example_pr_info_def)
  have strs: "\<forall>c\<in>set ?cs. is_str (comment_info.created_at c)"
    by (simp add: example_comment_info_def)
  have same: "mset ?prs2 = mset ?prs
      \<and> (\<forall>k. filter (\<lambda>p. num_val (pr_info.number p) = k) ?prs2
             = filter (\<lambda>p. num_val (pr_info.number p) = k) ?prs)"
    by (simp add: example_pr_info_def)
  note inst = final_sort_order[of no_files "''t''" ?prs "''p''" "''224''" ?F FS
      no_files "''t''" ?cs "''p''" "''224''" "''dika''" ?CF CFS]
  note c1 = mp[OF conjunct1[OF inst] conjI[OF run nums]]
  note c2 = mp[OF conjunct2[OF inst] conjI[OF crun strs]]
  note again = mp[OF spec[OF conjunct2[OF c1], of ?prs2] same]
  from conjunct1[OF c1] obtain rows where
    rows: "report_files FS ?F = Some rows"
      "sorted (rev (map (\<lambda>p. num_val (pr_info.number p)) rows))"
      "mset rows = mset ?prs"
    by blast
  from conjunct1[OF c2] obtain crows where
    crows: "report_files CFS ?CF = Some crows"
      "sorted (map (\<lambda>c. str_val (comment_info.created_at c)) crows)"
    by blast
  show ?thesis
    using run rows again crun crows by blast
qed

section \<open>The batch loops\<close>

lemma range_len_step:
  assumes "0 < step" and "start < stop"
  shows "range_len start stop step = Suc (range_len (start + step) stop step)"
proof (cases "start + step < stop")
  case True
  have "(stop - start - 1) div step = (stop - (start + step) - 1) div step + 1"
  proof -
    define a where "a = stop - (start + step) - 1"
    have "stop - start - 1 = a + step" by (simp add: a_def)
    moreover from assms(1) have "step \<noteq> 0" by simp
    then have "(a + step) div step = a div step + 1"
      by (rule div_add_self2)
    ultimately show ?thesis by (simp only: a_def)
  qed
  moreover have "0 \<le> (stop - (start + step) - 1) div step"
    using True assms(1) by (simp add: pos_imp_zdiv_nonneg_iff)
  ultimately show ?thesis
    using assms True by (simp add: range_len_def nat_add_distrib)
next
  case False
  then have "(stop - start - 1) div step = 0"
    using assms by (simp add: div_pos_pos_trivial)
  with assms False show ?thesis by (simp add: range_len_def)
qed

lemma range_values_step:
  assumes "0 < step" and "start < stop"
  shows "range_values start stop step = start # range_values (start + step) stop step"
proof -
  have "map (\<lambda>k. start + int k * step) [0..<Suc n]
      = start # map (\<lambda>k. (start + step) + int k * step) [0..<n]" for n
    by (simp add: upt_conv_Cons map_Suc_upt[symmetric] algebra_simps del: upt_Suc)
  then show ?thesis
    unfolding range_values_def range_len_step[OF assms] by blast
qed

lemma range_values_done: "0 < step \<Longrightarrow> stop \<le> start \<Longrightarrow> range_values start stop step = []"
  by (simp add: range_values_def range_len_def)

lemma range_len_covers:
  assumes "0 < step"
  shows "stop - start \<le> int (range_len start stop step) * step"
proof (cases "start < stop")
  case True
  define d where "d = stop - start - 1"
  have d0: "0 \<le> d" using True by (simp add: d_def)
  have "d = (d div step) * step + d mod step" by simp
  moreover have "d mod step < step" using assms by simp
  ultimately have "d < (d div step) * step + step" by linarith
  then have "d < (d div step + 1) * step" by (simp add: algebra_simps)
  moreover have "0 \<le> d div step"
    using d0 assms by (simp add: pos_imp_zdiv_nonneg_iff)
  ultimately show ?thesis
    using True assms by (simp add: range_len_def d_def)
next
  case False
  with assms show ?thesis by (simp add: range_len_def)
qed

lemma py_slice_batch:
  assumes "0 < b"
  shows "py_slice xs (int k) (int k + b) = take (nat b) (drop k xs)"
proof -
  have lo: "slice_bound xs (int k) = min k (length xs)"
    by (simp add: slice_bound_def Let_def min_def)
  have "nat (min (int k + b) (int (length xs))) = min (k + nat b) (length xs)"
    using assms by (simp add: min_def nat_add_distrib) linarith
  then have hi: "slice_bound xs (int k + b) = min (k + nat b) (length xs)"
    using assms by (simp add: slice_bound_def Let_def)
  show ?thesis
  proof (cases "k \<le> length xs")
    case True
    then have "min (k + nat b) (length xs) - k = min (nat b) (length xs - k)"
      by (simp add: min_def)
    with True show ?thesis
      unfolding py_slice_def lo hi by (simp add: min_def)
  next
    case False
    then show ?thesis
      unfolding py_slice_def lo hi by (simp add: min_def)
  qed
qed

lemma for_each_append:
  "for_each body (xs @ ys) s = then_do (for_each body xs s) (for_each body ys)"
  by (induction xs arbitrary: s) (auto split: sum.splits)

lemma save_progress_twice [simp]:
  "save_progress d f (save_progress d' f fs) = save_progress d f fs"
  by (simp add: save_progress_def)

lemma batch_steps:
  assumes bs: "0 < bs"
    and app: "\<And>xs acc. for_each inner xs acc = then_do (for_each inner xs []) (\<lambda>r. Inr (acc @ r))"
    and m: "m \<le> range_len (int k) (int (length items)) bs"
  shows "for_each (batch_step inner mk pf items bs)
            (take m (range_values (int k) (int (length items)) bs)) (acc, pp, fs)
       = then_do (for_each inner (take (m * nat bs) (drop k items)) []) (\<lambda>new.
           Inr (acc @ new, pp @ take (m * nat bs) (drop k items),
                if m = 0 then fs
                else save_progress (mk (acc @ new) (pp @ take (m * nat bs) (drop k items))) pf fs))"
  using m
proof (induction m arbitrary: k acc pp fs)
  case 0
  then show ?case by simp
next
  case (Suc m)
  let ?n = "int (length items)"
  let ?b = "nat bs"
  from Suc.prems have lt: "int k < ?n"
    by (auto simp: range_len_def bs split: if_splits)
  have kb: "int k + bs = int (k + ?b)" using bs by simp
  have vals: "range_values (int k) ?n bs = int k # range_values (int (k + ?b)) ?n bs"
    using range_values_step[OF bs lt] by (simp only: kb)
  have "range_len (int k) ?n bs = Suc (range_len (int (k + ?b)) ?n bs)"
    using range_len_step[OF bs lt] by (simp only: kb)
  with Suc.prems have m': "m \<le> range_len (int (k + ?b)) ?n bs" by simp
  let ?batch = "take ?b (drop k items)"
  let ?rest = "take (m * ?b) (drop (k + ?b) items)"
  have slice: "py_slice items (int k) (int k + bs) = ?batch"
    using bs by (rule py_slice_batch)
  have tk: "take (Suc m * ?b) (drop k items) = ?batch @ ?rest"
    by (simp add: take_add add.commute)
  have lhs: "for_each (batch_step inner mk pf items bs)
            (take (Suc m) (range_values (int k) ?n bs)) (acc, pp, fs)
      = then_do (batch_step inner mk pf items bs (int k) (acc, pp, fs))
          (for_each (batch_step inner mk pf items bs)
             (take m (range_values (int (k + ?b)) ?n bs)))"
    by (simp only: vals take_Suc_Cons for_each.simps then_do_def)
  have rhs: "for_each inner (take (Suc m * ?b) (drop k items)) []
      = then_do (for_each inner ?batch []) (\<lambda>br.
          then_do (for_each inner ?rest []) (\<lambda>new. Inr (br @ new)))"
  proof (cases "for_each inner ?batch []")
    case (Inl err)
    then show ?thesis by (simp only: tk for_each_append then_do_Inl)
  next
    case (Inr br)
    then show ?thesis
      by (simp only: tk for_each_append then_do_Inr app[of ?rest br])
  qed
  show ?case
  proof (cases "for_each inner ?batch []")
    case (Inl err)
    then show ?thesis
      unfolding lhs rhs by (simp add: batch_step_def slice Let_def)
  next
    case (Inr br)
    note br = this
    have step: "batch_step inner mk pf items bs (int k) (acc, pp, fs)
        = Inr (acc @ br, pp @ ?batch, save_progress (mk (acc @ br) (pp @ ?batch)) pf fs)"
      by (simp add: batch_step_def slice br Let_def)
    have ih: "for_each (batch_step inner mk pf items bs)
            (take m (range_values (int (k + ?b)) ?n bs))
            (acc @ br, pp @ ?batch, save_progress (mk (acc @ br) (pp @ ?batch)) pf fs)
       = then_do (for_each inner ?rest []) (\<lambda>new.
           Inr ((acc @ br) @ new, (pp @ ?batch) @ ?rest,
                if m = 0 then save_progress (mk (acc @ br) (pp @ ?batch)) pf fs
                else save_progress (mk ((acc @ br) @ new) ((pp @ ?batch) @ ?rest)) pf
                       (save_progress (mk (acc @ br) (pp @ ?batch)) pf fs)))"
      by (rule Suc.IH[OF m'])
    have left: "for_each (batch_step inner mk pf items bs)
            (take (Suc m) (range_values (int k) ?n bs)) (acc, pp, fs)
       = then_do (for_each inner ?rest []) (\<lambda>new.
           Inr ((acc @ br) @ new, (pp @ ?batch) @ ?rest,
                if m = 0 then save_progress (mk (acc @ br) (pp @ ?batch)) pf fs
                else save_progress (mk ((acc @ br) @ new) ((pp @ ?batch) @ ?rest)) pf
                       (save_progress (mk (acc @ br) (pp @ ?batch)) pf fs)))"
      by (simp only: lhs step then_do_Inr ih)
    have right: "for_each inner (take (Suc m * ?b) (drop k items)) []
        = then_do (for_each inner ?rest []) (\<lambda>new. Inr (br @ new))"
      by (simp only: rhs br then_do_Inr)
    show ?thesis
    proof (cases "for_each inner ?rest []")
      case (Inl err)
      show ?thesis
        by (simp only: left right Inl then_do_Inl)
    next
      case (Inr new)
      have m0: "m = 0 \<Longrightarrow> new = [] \<and> ?rest = []"
        using Inr by simp
      show ?thesis
        apply (simp only: left right Inr then_do_Inr)
        apply (simp only: tk)
        apply (insert m0)
        apply (cases "m = 0")
         apply simp_all
        done
    qed
  qed
qed

lemma review_batch_step:
  "review_batch e u pf items bs
     = batch_step (review_inner e u) (comment_progress_of (length items)) pf items bs"
  by (rule ext, rule ext)
     (simp add: review_batch_def batch_step_def comment_progress_of_def Let_def
        split: prod.splits)

lemma pr_batch_step:
  "pr_batch e pf items bs = batch_step (pr_inner e) (pr_progress_of (length items)) pf items bs"
  by (rule ext, rule ext)
     (simp add: pr_batch_def batch_step_def pr_progress_of_def Let_def split: prod.splits)

lemma appending_for_each:
  assumes inner: "\<And>x acc. inner x acc = then_do (item x) (\<lambda>rows. Inr (acc @ rows))"
  shows "for_each inner xs acc = then_do (for_each inner xs []) (\<lambda>r. Inr (acc @ r))"
proof (induction xs arbitrary: acc)
  case Nil
  show ?case by simp
next
  case (Cons x xs)
  show ?case
  proof (cases "item x")
    case (Inl err)
    then have "inner x acc = Inl err" and "inner x [] = Inl err"
      by (simp_all only: inner then_do_Inl)
    then show ?thesis by simp
  next
    case (Inr rows)
    then have here: "inner x acc = Inr (acc @ rows)" and empty: "inner x [] = Inr rows"
      by (simp_all only: inner then_do_Inr append_Nil)
    have "for_each inner (x # xs) acc = for_each inner xs (acc @ rows)"
      by (simp add: here)
    also have "\<dots> = then_do (for_each inner xs []) (\<lambda>r. Inr ((acc @ rows) @ r))"
      by (rule Cons.IH)
    finally have left: "for_each inner (x # xs) acc
        = then_do (for_each inner xs []) (\<lambda>r. Inr ((acc @ rows) @ r))" .
    have "for_each inner (x # xs) [] = for_each inner xs rows"
      by (simp add: empty)
    also have "\<dots> = then_do (for_each inner xs []) (\<lambda>r. Inr (rows @ r))"
      by (rule Cons.IH)
    finally have right: "for_each inner (x # xs) []
        = then_do (for_each inner xs []) (\<lambda>r. Inr (rows @ r))" .
    show ?thesis
      unfolding left right by (cases "for_each inner xs []") simp_all
  qed
qed

lemma review_inner_app:
  "for_each (review_inner e u) xs acc
     = then_do (for_each (review_inner e u) xs []) (\<lambda>r. Inr (acc @ r))"
proof (rule appending_for_each)
  show "review_inner e u x acc
      = then_do (then_do (review_item e u x)
                   (\<lambda>r. Inr (case r of Inl reason \<Rightarrow> [] | Inr rows \<Rightarrow> rows)))
          (\<lambda>rows. Inr (acc @ rows))" for x acc
    by (cases "review_item e u x") (auto simp: review_inner_def split: sum.splits)
qed

lemma pr_inner_app:
  "for_each (pr_inner e) xs acc = then_do (for_each (pr_inner e) xs []) (\<lambda>r. Inr (acc @ r))"
proof (rule appending_for_each)
  show "pr_inner e x acc
      = then_do (then_do (pr_item e x)
                   (\<lambda>r. Inr (case r of Inl reason \<Rightarrow> [] | Inr info \<Rightarrow> [info])))
          (\<lambda>rows. Inr (acc @ rows))" for x acc
    by (cases "pr_item e x") (auto simp: pr_inner_def split: sum.splits)
qed

lemma length_range_values [simp]:
  "length (range_values start stop step) = range_len start stop step"
  by (simp add: range_values_def)

lemma batch_run:
  assumes bs: "0 < bs"
    and app: "\<And>xs acc. for_each inner xs acc = then_do (for_each inner xs []) (\<lambda>r. Inr (acc @ r))"
  shows "for_each (batch_step inner mk pf items bs)
            (range_values (int k) (int (length items)) bs) (acc, pp, fs)
       = then_do (for_each inner (drop k items) []) (\<lambda>new.
           Inr (acc @ new, pp @ drop k items,
                if k < length items
                then save_progress (mk (acc @ new) (pp @ drop k items)) pf fs else fs))"
proof -
  let ?m = "range_len (int k) (int (length items)) bs"
  have "int (length items) - int k \<le> int ?m * bs"
    using bs by (rule range_len_covers)
  moreover have "0 \<le> int ?m * bs"
    using bs by simp
  ultimately have "int (length items - k) \<le> int ?m * bs"
    by (cases "k \<le> length items") (simp_all add: of_nat_diff)
  then have "int (length items - k) \<le> int (?m * nat bs)"
    using bs by simp
  then have "length (drop k items) \<le> ?m * nat bs"
    by (simp only: length_drop of_nat_le_iff)
  then have all: "take (?m * nat bs) (drop k items) = drop k items"
    by (rule take_all)
  have zero: "?m = 0 \<longleftrightarrow> \<not> k < length items"
  proof (cases "k < length items")
    case True
    then have "int k < int (length items)" by simp
    from range_len_step[OF bs this] True show ?thesis by simp
  next
    case False
    then show ?thesis using bs by (simp add: range_len_def)
  qed
  have "for_each (batch_step inner mk pf items bs)
            (take ?m (range_values (int k) (int (length items)) bs)) (acc, pp, fs)
       = then_do (for_each inner (take (?m * nat bs) (drop k items)) []) (\<lambda>new.
           Inr (acc @ new, pp @ take (?m * nat bs) (drop k items),
                if ?m = 0 then fs
                else save_progress (mk (acc @ new) (pp @ take (?m * nat bs) (drop k items))) pf fs))"
    using bs app by (rule batch_steps) simp
  then show ?thesis
    unfolding all zero by (cases "k < length items") simp_all
qed

section \<open>Checkpoints and resumed runs\<close>

lemma checkpoint_after_batches:
  assumes bs: "0 < bs"
    and app: "\<And>xs acc. for_each inner xs acc = then_do (for_each inner xs []) (\<lambda>r. Inr (acc @ r))"
    and m: "0 < m" "m \<le> range_len (int k) (int (length items)) bs"
    and run: "for_each (batch_step inner mk pf items bs)
            (take m (range_values (int k) (int (length items)) bs)) (acc, pp, fs)
          = Inr (acc', pp', fs')"
  shows "pp' = pp @ take (m * nat bs) (drop k items) \<and> progress_files fs' pf = Some (mk acc' pp')"
proof -
  from run obtain new where
    "acc' = acc @ new" "pp' = pp @ take (m * nat bs) (drop k items)"
    "fs' = save_progress (mk (acc @ new) (pp @ take (m * nat bs) (drop k items))) pf fs"
    unfolding batch_steps[OF bs app m(2)] using m(1)
    by (auto simp: then_do_Inr_iff)
  then show ?thesis by (simp add: save_progress_def)
qed

lemma batches_consume:
  assumes "0 < m" and "m \<le> range_len (int k) (int n) bs" and "0 < bs"
  shows "k + min (n - k) (m * nat bs) = min (k + m * nat bs) n"
proof -
  have "k < n" using assms by (auto simp: range_len_def split: if_splits)
  then show ?thesis by (auto simp: min_def)
qed

lemma review_resume_index:
  "review_resume fs pf = (ac, pp, k) \<Longrightarrow> k = length pp"
  by (auto simp: review_resume_def split: option.splits)

lemma pr_resume_index:
  "pr_resume fs pf = (found, pp, k) \<Longrightarrow> k = length pp"
  by (auto simp: pr_resume_def split: option.splits)

lemma review_checkpoint:
  assumes bs: "0 < bs" and m: "0 < m" "m \<le> range_len (int k) (int (length items)) bs"
    and start: "review_resume fs pf = (ac, pp, k)"
    and run: "for_each (review_batch e u pf items bs)
            (take m (range_values (int k) (int (length items)) bs)) (ac, pp, fs)
          = Inr (ac', pp', fs')"
  shows "\<exists>cp. load_progress pf fs' = Some cp
      \<and> c_processed cp = pp @ take (m * nat bs) (drop k items)
      \<and> length (c_processed cp) = min (k + m * nat bs) (length items)
      \<and> c_processed_count cp = length (c_processed cp)
      \<and> review_resume fs' pf
          = (c_all_comments cp, c_processed cp, min (k + m * nat bs) (length items))"
proof -
  from checkpoint_after_batches[OF bs review_inner_app m run[unfolded review_batch_step]]
  have pp': "pp' = pp @ take (m * nat bs) (drop k items)"
    and saved: "progress_files fs' pf = Some (comment_progress_of (length items) ac' pp')"
    by simp_all
  have len: "length pp' = min (k + m * nat bs) (length items)"
    using review_resume_index[OF start] batches_consume[OF m bs] by (simp add: pp')
  show ?thesis
    using saved pp' len
    by (simp add: load_progress_def review_resume_def comment_progress_of_def)
qed

lemma pr_checkpoint:
  assumes bs: "0 < bs" and m: "0 < m" "m \<le> range_len (int k) (int (length items)) bs"
    and start: "pr_resume fs pf = (found, pp, k)"
    and run: "for_each (pr_batch e pf items bs)
            (take m (range_values (int k) (int (length items)) bs)) (found, pp, fs)
          = Inr (found', pp', fs')"
  shows "\<exists>cp. load_progress pf fs' = Some cp
      \<and> p_processed cp = pp @ take (m * nat bs) (drop k items)
      \<and> length (p_processed cp) = min (k + m * nat bs) (length items)
      \<and> p_processed_count cp = length (p_processed cp)
      \<and> pr_resume fs' pf = ([], p_processed cp, min (k + m * nat bs) (length items))"
proof -
  from checkpoint_after_batches[OF bs pr_inner_app m run[unfolded pr_batch_step]]
  have pp': "pp' = pp @ take (m * nat bs) (drop k items)"
    and saved: "progress_files fs' pf = Some (pr_progress_of (length items) found' pp')"
    by simp_all
  have len: "length pp' = min (k + m * nat bs) (length items)"
    using pr_resume_index[OF start] batches_consume[OF m bs] by (simp add: pp')
  show ?thesis
    using saved pp' len
    by (simp add: load_progress_def pr_resume_def pr_progress_of_def)
qed

lemma process_prs_for_comments_run:
  assumes "0 < bs"
  shows "process_prs_for_comments e fs now items u bs
     = (case review_resume fs (comment_progress_file now) of (ac, pp, k) \<Rightarrow>
          then_do (review_results e u (drop k items)) (\<lambda>new.
            Inr ((ac @ new, comment_progress_file now),
                 if k < length items
                 then save_progress (comment_progress_of (length items) (ac @ new)
                        (pp @ drop k items)) (comment_progress_file now) fs
                 else fs)))"
proof -
  obtain ac pp k where start: "review_resume fs (comment_progress_file now) = (ac, pp, k)"
    by (cases "review_resume fs (comment_progress_file now)") auto
  have range: "py_range (int k) (int (length items)) bs
      = Inr (range_values (int k) (int (length items)) bs)"
    using assms by (simp add: py_range_def)
  show ?thesis
    unfolding process_prs_for_comments_def Let_def start prod.case range then_do_Inr
      review_batch_step batch_run[OF assms review_inner_app] review_results_def
    by (cases "for_each (review_inner e u) (drop k items) []") simp_all
qed

lemma process_prs_in_batches_run:
  assumes "0 < bs"
  shows "process_prs_in_batches e fs now items bs
     = (case pr_resume fs (pr_progress_file now) of (found, pp, k) \<Rightarrow>
          then_do (pr_results e (drop k items)) (\<lambda>new.
            Inr ((found @ new, pr_progress_file now),
                 if k < length items
                 then save_progress (pr_progress_of (length items) (found @ new)
                        (pp @ drop k items)) (pr_progress_file now) fs
                 else fs)))"
proof -
  obtain found pp k where start: "pr_resume fs (pr_progress_file now) = (found, pp, k)"
    by (cases "pr_resume fs (pr_progress_file now)") auto
  have range: "py_range (int k) (int (length items)) bs
      = Inr (range_values (int k) (int (length items)) bs)"
    using assms by (simp add: py_range_def)
  show ?thesis
    unfolding process_prs_in_batches_def Let_def start prod.case range then_do_Inr
      pr_batch_step batch_run[OF assms pr_inner_app] pr_results_def
    by (cases "for_each (pr_inner e) (drop k items) []") simp_all
qed

lemma review_results_split:
  "review_results e u items
     = then_do (review_results e u (take k items)) (\<lambda>a.
         then_do (review_results e u (drop k items)) (\<lambda>b. Inr (a @ b)))"
proof -
  have "for_each (review_inner e u) (take k items @ drop k items) []
      = then_do (for_each (review_inner e u) (take k items) [])
          (for_each (review_inner e u) (drop k items))"
    by (rule for_each_append)
  then have whole: "for_each (review_inner e u) items []
      = then_do (for_each (review_inner e u) (take k items) [])
          (for_each (review_inner e u) (drop k items))"
    by simp
  show ?thesis
  proof (cases "for_each (review_inner e u) (take k items) []")
    case (Inl err)
    then show ?thesis
      unfolding review_results_def whole by simp
  next
    case (Inr a)
    then show ?thesis
      unfolding review_results_def whole
      by (simp add: review_inner_app[of e u "drop k items" a])
  qed
qed

text \<open>
  The comment report resumes correctly: from a progress file whose comments are those of
  the PRs it lists as processed, the resumed run processes the remaining PRs only and
  returns what a run from nothing returns.
\<close>

lemma review_resume_equals_fresh:
  assumes bs: "0 < bs"
    and saved: "load_progress (comment_progress_file now) fs = Some cp"
    and fresh: "load_progress (comment_progress_file now) fs0 = None"
    and prior: "review_results e u (take (length (c_processed cp)) items)
                  = Inr (c_all_comments cp)"
  shows "map_sum id fst (process_prs_for_comments e fs now items u bs)
       = map_sum id fst (process_prs_for_comments e fs0 now items u bs)
     \<and> map_sum id fst (process_prs_for_comments e fs now items u bs)
       = map_sum id (\<lambda>new. (c_all_comments cp @ new, comment_progress_file now))
           (review_results e u (drop (length (c_processed cp)) items))"
proof -
  let ?k = "length (c_processed cp)"
  have whole: "review_results e u items
      = then_do (review_results e u (drop ?k items)) (\<lambda>b. Inr (c_all_comments cp @ b))"
    using review_results_split[of e u items ?k] by (simp add: prior)
  show ?thesis
    unfolding process_prs_for_comments_run[OF bs]
    by (cases "review_results e u (drop ?k items)")
       (simp_all add: review_resume_def saved fresh whole)
qed

text \<open>
  The PR report does not: a resumed run returns the records of the remaining PRs only,
  whatever the progress file holds under \<^verbatim>\<open>release_prs\<close>.
\<close>

lemma pr_resume_returns_tail:
  assumes bs: "0 < bs"
    and saved: "load_progress (pr_progress_file now) fs = Some cp"
  shows "map_sum id fst (process_prs_in_batches e fs now items bs)
       = map_sum id (\<lambda>new. (new, pr_progress_file now))
           (pr_results e (drop (length (p_processed cp)) items))"
  unfolding process_prs_in_batches_run[OF bs]
  by (cases "pr_results e (drop (length (p_processed cp)) items)")
     (simp_all add: pr_resume_def saved)

lemma pr_inner_ex:
  "pr_inner (example_run found) (example_item n b) acc
     = Inr (if prefix ''release/'' b then acc @ [example_found n b] else acc)"
  by (simp add: pr_inner_def pr_item_ex example_found_def)

lemma review_inner_ex:
  "review_inner (example_run found) ''dika'' (example_item n b) acc = Inr acc"
  by (simp add: review_inner_def review_item_def example_run_def example_item_def
      example_net_def github_request_def token_missing_def details_targeting_def
      review_target_branch_def startswith_def Let_def get_pr_comments_def
      lower_def lower_char_def)

lemma range_0_3_2: "range_values 0 3 2 = [0, 2]"
  by (simp add: range_values_def range_len_def upt_conv_Cons)

lemma range_len_0_3_2: "range_len 0 3 2 = 2"
  by (simp add: range_len_def)

lemma slice_ex: "py_slice [a, b, c] 0 2 = [a, b]" "py_slice [a, b, c] 2 4 = [c]"
  by (simp_all add: py_slice_def slice_bound_def)

lemma pr_first_batch:
  "for_each (pr_batch (example_run []) ''f''
       [example_item 1 ''main'', example_item 2 ''release/1'', example_item 3 ''main''] 2)
     (take 1 (range_values 0 3 2)) ([], [], no_files)
   = Inr ([example_found 2 ''release/1''],
          [example_item 1 ''main'', example_item 2 ''release/1''],
          \<lparr> progress_files = [''f'' \<mapsto> \<lparr> p_total_prs = 3, p_processed_count = 2,
               p_release_prs_found = 1,
               p_processed = [example_item 1 ''main'', example_item 2 ''release/1''],
               p_release_prs = [example_found 2 ''release/1''] \<rparr>],
             report_files = Map.empty, csvs_dir = True \<rparr>)"
  by (simp add: range_0_3_2 pr_batch_def slice_ex pr_inner_ex Let_def save_progress_def
      no_files_def eval_nat_numeral)

lemma review_first_batch:
  "for_each (review_batch (example_run []) ''dika'' ''f''
       [example_item 1 ''main'', example_item 2 ''release/1'', example_item 3 ''main''] 2)
     (take 1 (range_values 0 3 2)) ([], [], no_files)
   = Inr ([],
          [example_item 1 ''main'', example_item 2 ''release/1''],
          \<lparr> progress_files = [''f'' \<mapsto> \<lparr> c_total_prs = 3, c_processed_count = 2,
               c_comments_found = 0,
               c_processed = [example_item 1 ''main'', example_item 2 ''release/1''],
               c_all_comments = [] \<rparr>],
             report_files = Map.empty, csvs_dir = True \<rparr>)"
  by (simp add: range_0_3_2 review_batch_def slice_ex review_inner_ex Let_def save_progress_def
      no_files_def eval_nat_numeral)

text \<open>
  Claim C8. In either script, after each batch of a run (the first \<open>m\<close> batches, for
  every \<open>m\<close> from 1 to the number of batches, of a run that starts at index \<open>k\<close>
  from nothing or from a progress file), the progress file exists, its
  \<^verbatim>\<open>processed\<close> list is the list the run started with followed by all items of the
  batches done, accepted or not, its length is \<open>min (k + m * batch_size) (len items)\<close>
  and equals \<^verbatim>\<open>processed_count\<close>, and a run that loads this file starts at that
  index.
\<close>

theorem checkpoint_length_invariant:
  "(0 < bs \<and> 0 < m \<and> m \<le> range_len (int k) (int (length items)) bs
      \<and> pr_resume fs pf = (found, pp, k)
      \<and> for_each (pr_batch e pf items bs)
            (take m (range_values (int k) (int (length items)) bs)) (found, pp, fs)
          = Inr (found', pp', fs')
    \<longrightarrow> (\<exists>cp. load_progress pf fs' = Some cp
          \<and> p_processed cp = pp @ take (m * nat bs) (drop k items)
          \<and> length (p_processed cp) = min (k + m * nat bs) (length items)
          \<and> p_processed_count cp = length (p_processed cp)
          \<and> pr_resume fs' pf = ([], p_processed cp, min (k + m * nat bs) (length items))))
 \<and> (0 < cbs \<and> 0 < cm \<and> cm \<le> range_len (int ck) (int (length citems)) cbs
      \<and> review_resume cfs cpf = (ac, cpp, ck)
      \<and> for_each (review_batch ce u cpf citems cbs)
            (take cm (range_values (int ck) (int (length citems)) cbs)) (ac, cpp, cfs)
          = Inr (ac', cpp', cfs')
    \<longrightarrow> (\<exists>cp. load_progress cpf cfs' = Some cp
          \<and> c_processed cp = cpp @ take (cm * nat cbs) (drop ck citems)
          \<and> length (c_processed cp) = min (ck + cm * nat cbs) (length citems)
          \<and> c_processed_count cp = length (c_processed cp)
          \<and> review_resume cfs' cpf
              = (c_all_comments cp, c_processed cp, min (ck + cm * nat cbs) (length citems))))"
proof (intro conjI impI)
  assume "0 < bs \<and> 0 < m \<and> m \<le> range_len (int k) (int (length items)) bs
      \<and> pr_resume fs pf = (found, pp, k)
      \<and> for_each (pr_batch e pf items bs)
            (take m (range_values (int k) (int (length items)) bs)) (found, pp, fs)
          = Inr (found', pp', fs')"
  then show "\<exists>cp. load_progress pf fs' = Some cp
          \<and> p_processed cp = pp @ take (m * nat bs) (drop k items)
          \<and> length (p_processed cp) = min (k + m * nat bs) (length items)
          \<and> p_processed_count cp = length (p_processed cp)
          \<and> pr_resume fs' pf = ([], p_processed cp, min (k + m * nat bs) (length items))"
    using pr_checkpoint[of bs m k items fs pf found pp e found' pp' fs'] by blast
next
  assume "0 < cbs \<and> 0 < cm \<and> cm \<le> range_len (int ck) (int (length citems)) cbs
      \<and> review_resume cfs cpf = (ac, cpp, ck)
      \<and> for_each (review_batch ce u cpf citems cbs)
            (take cm (range_values (int ck) (int (length citems)) cbs)) (ac, cpp, cfs)
          = Inr (ac', cpp', cfs')"
  then show "\<exists>cp. load_progress cpf cfs' = Some cp
          \<and> c_processed cp = cpp @ take (cm * nat cbs) (drop ck citems)
          \<and> length (c_processed cp) = min (ck + cm * nat cbs) (length citems)
          \<and> c_processed_count cp = length (c_processed cp)
          \<and> review_resume cfs' cpf
              = (c_all_comments cp, c_processed cp, min (ck + cm * nat cbs) (length citems))"
    using review_checkpoint[of cbs cm ck citems cfs cpf ac cpp ce u ac' cpp' cfs'] by blast
qed

theorem checkpoint_length_invariant_witness:
  "(\<exists>found' pp' fs' cp.
      for_each (pr_batch (example_run []) ''f''
          [example_item 1 ''main'', example_item 2 ''release/1'', example_item 3 ''main''] 2)
        (take 1 (range_values 0 3 2)) ([], [], no_files) = Inr (found', pp', fs')
      \<and> load_progress ''f'' fs' = Some cp
      \<and> length (p_processed cp) = 2
      \<and> pr_resume fs' ''f'' = ([], p_processed cp, 2))
   \<and> (\<exists>ac' pp' fs' cp.
      for_each (review_batch (example_run []) ''dika'' ''f''
          [example_item 1 ''main'', example_item 2 ''release/1'', example_item 3 ''main''] 2)
        (take 1 (range_values 0 3 2)) ([], [], no_files) = Inr (ac', pp', fs')
      \<and> load_progress ''f'' fs' = Some cp
      \<and> length (c_processed cp) = 2
      \<and> review_resume fs' ''f'' = (c_all_comments cp, c_processed cp, 2))"
proof -
  let ?items = "[example_item 1 ''main'', example_item 2 ''release/1'', example_item 3 ''main'']"
  obtain found' pp' fs' where run:
    "for_each (pr_batch (example_run []) ''f'' ?items 2)
        (take 1 (range_values 0 3 2)) ([], [], no_files) = Inr (found', pp', fs')"
    using pr_first_batch by blast
  obtain ac' cpp' cfs' where crun:
    "for_each (review_batch (example_run []) ''dika'' ''f'' ?items 2)
        (take 1 (range_values 0 3 2)) ([], [], no_files) = Inr (ac', cpp', cfs')"
    using review_first_batch by blast
  have start: "pr_resume no_files ''f'' = ([], [], 0)"
    by (simp add: pr_resume_def load_progress_def no_files_def)
  have cstart: "review_resume no_files ''f'' = ([], [], 0)"
    by (simp add: review_resume_def load_progress_def no_files_def)
  have len: "(1::nat) \<le> range_len (int 0) (int (length ?items)) 2"
    by (simp add: range_len_def)
  have run': "for_each (pr_batch (example_run []) ''f'' ?items 2)
        (take 1 (range_values (int 0) (int (length ?items)) 2)) ([], [], no_files)
      = Inr (found', pp', fs')"
    using run by simp
  have crun': "for_each (review_batch (example_run []) ''dika'' ''f'' ?items 2)
        (take 1 (range_values (int 0) (int (length ?items)) 2)) ([], [], no_files)
      = Inr (ac', cpp', cfs')"
    using crun by simp
  note inst = checkpoint_length_invariant[of 2 1 0 ?items no_files "''f''" "[]" "[]"
      "example_run []" found' pp' fs' 2 1 0 ?items no_files "''f''" "[]" "[]"
      "example_run []" "''dika''" ac' cpp' cfs']
  have pos: "(0::int) < 2" "(0::nat) < 1" by simp_all
  from conjunct1[OF inst] pos len start run' obtain cp where
    cp: "load_progress ''f'' fs' = Some cp"
      "length (p_processed cp) = min (0 + 1 * nat 2) (length ?items)"
      "pr_resume fs' ''f'' = ([], p_processed cp, min (0 + 1 * nat 2) (length ?items))"
    by blast
  from conjunct2[OF inst] pos len cstart crun' obtain ccp where
    ccp: "load_progress ''f'' cfs' = Some ccp"
      "length (c_processed ccp) = min (0 + 1 * nat 2) (length ?items)"
      "review_resume cfs' ''f''
         = (c_all_comments ccp, c_processed ccp, min (0 + 1 * nat 2) (length ?items))"
    by blast
  have two: "min (0 + 1 * nat 2) (length ?items) = 2" by simp
  show ?thesis
    using run cp crun ccp unfolding two by blast
qed

lemma range_0_2_1: "range_values 0 2 1 = [0, 1]"
  by (simp add: range_values_def range_len_def upt_conv_Cons)

text \<open>
  Claim C1 at a failing input. pr.py, batch size 1, two PRs that both target a release
  branch. After the first batch the progress file holds the first PR as processed and
  its record. A run from nothing returns both records; a run resumed from that file
  returns the record of the second PR only.
\<close>

theorem resumed_pr_run_drops_saved_results:
  "for_each (pr_batch (example_run []) ''pr_processing_progress_n.json''
        [example_item 1 ''release/1'', example_item 2 ''release/2''] 1)
      (take 1 (range_values 0 2 1)) ([], [], no_files)
     = Inr ([example_found 1 ''release/1''], [example_item 1 ''release/1''], example_checkpoint)
   \<and> map_sum id fst (process_prs_in_batches (example_run []) no_files ''n''
        [example_item 1 ''release/1'', example_item 2 ''release/2''] 1)
     = Inr ([example_found 1 ''release/1'', example_found 2 ''release/2''],
            ''pr_processing_progress_n.json'')
   \<and> map_sum id fst (process_prs_in_batches (example_run []) example_checkpoint ''n''
        [example_item 1 ''release/1'', example_item 2 ''release/2''] 1)
     = Inr ([example_found 2 ''release/2''], ''pr_processing_progress_n.json'')"
proof (intro conjI)
  show "for_each (pr_batch (example_run []) ''pr_processing_progress_n.json''
        [example_item 1 ''release/1'', example_item 2 ''release/2''] 1)
      (take 1 (range_values 0 2 1)) ([], [], no_files)
     = Inr ([example_found 1 ''release/1''], [example_item 1 ''release/1''], example_checkpoint)"
    by (simp add: range_0_2_1 pr_batch_def py_slice_def slice_bound_def pr_inner_ex Let_def
        save_progress_def no_files_def example_checkpoint_def eval_nat_numeral)
  show "map_sum id fst (process_prs_in_batches (example_run []) no_files ''n''
        [example_item 1 ''release/1'', example_item 2 ''release/2''] 1)
     = Inr ([example_found 1 ''release/1'', example_found 2 ''release/2''],
            ''pr_processing_progress_n.json'')"
    by (simp add: process_prs_in_batches_run pr_resume_def load_progress_def no_files_def
        pr_progress_file_def pr_results_def pr_inner_ex)
  show "map_sum id fst (process_prs_in_batches (example_run []) example_checkpoint ''n''
        [example_item 1 ''release/1'', example_item 2 ''release/2''] 1)
     = Inr ([example_found 2 ''release/2''], ''pr_processing_progress_n.json'')"
    by (simp add: process_prs_in_batches_run pr_resume_def load_progress_def
        example_checkpoint_def pr_progress_file_def pr_results_def pr_inner_ex)
qed

section \<open>The paginators\<close>

lemma github_request_search:
  "\<not> token_missing e \<Longrightarrow>
     github_request e (SearchIssues query per_page page) = Inr (search_response e query page)"
  by (simp add: github_request_def search_response_def)

lemma accumulated_Suc:
  "accumulated e query (Suc n)
     = accumulated e query n @ page_items (search_response e query (Suc n))"
  by (simp add: accumulated_def)

lemma accumulated_0 [simp]: "accumulated e query 0 = []"
  by (simp add: accumulated_def)

lemma search_return_ok:
  "page_ok r \<Longrightarrow> search_return all_items r = Inr (all_items, reported_total r (length all_items))"
  by (cases r) (auto simp: search_return_def page_ok_def reported_total_def)

lemma search_pages_continue:
  assumes tok: "\<not> token_missing e"
    and acc: "all_items = accumulated e query n"
    and cont: "continues e query (Suc n)"
  shows "search_pages e query (Suc n) all_items
       = search_pages e query (Suc (Suc n)) (accumulated e query (Suc n))"
proof -
  let ?r = "search_response e query (Suc n)"
  from cont obtain its where its: "get_or ?r ''items'' (JArr []) = JArr its"
    by (cases "get_or ?r ''items'' (JArr [])") (auto simp: continues_def Let_def)
  then have pi: "page_items ?r = its" by (simp add: page_items_def)
  from cont pi have len: "\<not> length its < per_page" "its \<noteq> []"
    by (auto simp: continues_def Let_def per_page_def)
  from cont have facts: "truthy ?r" "is_dict ?r" "is_num (get_or ?r ''total_count'' (JNum 0))"
    "\<not> num_val (get_or ?r ''total_count'' (JNum 0)) \<le> int (length (accumulated e query (Suc n)))"
    by (auto simp: continues_def Let_def)
  have next_acc: "accumulated e query (Suc n) = all_items @ its"
    by (simp add: accumulated_Suc acc pi)
  show ?thesis
    apply (subst search_pages.simps)
    apply (simp add: github_request_search[OF tok] facts(1,2) its len Let_def int_ge_def
        facts(3) next_acc[symmetric] facts(4))
    done
qed

lemma search_pages_prefix:
  assumes tok: "\<not> token_missing e"
    and cont: "\<forall>page. 1 \<le> page \<and> page \<le> n \<longrightarrow> continues e query page"
  shows "search_pages e query 1 [] = search_pages e query (Suc n) (accumulated e query n)"
  using cont
proof (induction n)
  case 0
  show ?case by simp
next
  case (Suc n)
  then have "search_pages e query 1 [] = search_pages e query (Suc n) (accumulated e query n)"
    by simp
  also have "\<dots> = search_pages e query (Suc (Suc n)) (accumulated e query (Suc n))"
  proof (rule search_pages_continue[OF tok refl])
    show "continues e query (Suc n)" using Suc.prems by simp
  qed
  finally show ?case .
qed

lemma falsy_page_items: "\<not> truthy r \<Longrightarrow> page_items r = []"
  by (cases r) (simp_all add: page_items_def)

lemma search_pages_stop:
  assumes tok: "\<not> token_missing e"
    and ok: "page_ok (search_response e query (Suc n))"
    and stop: "\<not> continues e query (Suc n)"
  shows "search_pages e query (Suc n) (accumulated e query n)
       = Some (Inr (accumulated e query (Suc n),
                    reported_total (search_response e query (Suc n))
                      (length (accumulated e query (Suc n)))))"
proof -
  let ?r = "search_response e query (Suc n)"
  let ?acc = "accumulated e query n"
  have ret: "search_return all_items ?r = Inr (all_items, reported_total ?r (length all_items))"
    for all_items
    using ok by (rule search_return_ok)
  show ?thesis
  proof (cases "truthy ?r")
    case False
    then have "accumulated e query (Suc n) = ?acc"
      by (simp add: accumulated_Suc falsy_page_items)
    with False show ?thesis
      by (subst search_pages.simps) (simp add: github_request_search[OF tok] ret)
  next
    case True
    with ok have dict: "is_dict ?r" and num: "is_num (get_or ?r ''total_count'' (JNum 0))"
      by (simp_all add: page_ok_def)
    show ?thesis
    proof (cases "get_or ?r ''items'' (JArr [])")
      case (JArr its)
      then have pi: "page_items ?r = its" by (simp add: page_items_def)
      then have next_acc: "accumulated e query (Suc n) = ?acc @ its"
        by (simp add: accumulated_Suc)
      from stop True dict num JArr pi have reached:
        "per_page \<le> length its \<Longrightarrow>
           num_val (get_or ?r ''total_count'' (JNum 0)) \<le> int (length (?acc @ its))"
        by (simp add: continues_def Let_def next_acc)
      show ?thesis
        apply (subst search_pages.simps)
        apply (simp add: github_request_search[OF tok] True dict JArr Let_def ret int_ge_def num
            next_acc)
        using reached apply (auto simp: not_less)
        done
    qed (insert True dict,
         (subst search_pages.simps,
          simp add: github_request_search[OF tok] Let_def ret accumulated_Suc page_items_def)+)
  qed
qed

lemma search_terminates:
  assumes tok: "\<not> token_missing e"
    and N: "1 \<le> N"
    and ok: "\<forall>page. 1 \<le> page \<and> page \<le> N \<longrightarrow> page_ok (search_response e query page)"
    and stop: "length (page_items (search_response e query N)) < per_page
        \<or> num_val (get_or (search_response e query N) ''total_count'' (JNum 0))
            \<le> int (length (accumulated e query N))"
  shows "\<exists>m. 1 \<le> m \<and> m \<le> N
      \<and> (\<forall>j. 1 \<le> j \<and> j < m \<longrightarrow> continues e query j)
      \<and> \<not> continues e query m
      \<and> search_pages e query 1 []
          = Some (Inr (accumulated e query m,
                       reported_total (search_response e query m)
                         (length (accumulated e query m))))"
proof -
  have notN: "\<not> continues e query N"
    using stop by (auto simp: continues_def Let_def)
  define m where "m = (LEAST j. 1 \<le> j \<and> \<not> continues e query j)"
  have m: "1 \<le> m \<and> \<not> continues e query m"
    unfolding m_def using N notN by (rule LeastI[of "\<lambda>j. 1 \<le> j \<and> \<not> continues e query j", OF conjI])
  have mN: "m \<le> N"
    unfolding m_def using N notN by (intro Least_le conjI)
  have before: "continues e query j" if "1 \<le> j" "j < m" for j
    using that not_less_Least[of j "\<lambda>j. 1 \<le> j \<and> \<not> continues e query j"]
    by (auto simp: m_def)
  from m obtain n where n: "m = Suc n" by (cases m) auto
  have "search_pages e query 1 [] = search_pages e query (Suc n) (accumulated e query n)"
    using tok by (rule search_pages_prefix) (use before n in auto)
  also have "\<dots> = Some (Inr (accumulated e query (Suc n),
                    reported_total (search_response e query (Suc n))
                      (length (accumulated e query (Suc n)))))"
    using tok ok m mN unfolding n by (intro search_pages_stop) auto
  finally show ?thesis
    using m mN n before by auto
qed

lemma github_request_commits:
  "\<not> token_missing e \<Longrightarrow> github_request e (commits_url page) = Inr (commit_response e commits_url page)"
  by (simp add: github_request_def commit_response_def)

lemma accumulated_commits_Suc:
  "accumulated_commits e commits_url (Suc n)
     = accumulated_commits e commits_url n @ list_items (commit_response e commits_url (Suc n))"
  by (simp add: accumulated_commits_def)

lemma accumulated_commits_0 [simp]: "accumulated_commits e commits_url 0 = []"
  by (simp add: accumulated_commits_def)

lemma commit_pages_continue:
  assumes tok: "\<not> token_missing e"
    and full: "per_page \<le> length (list_items (commit_response e commits_url (Suc n)))"
  shows "commit_pages e commits_url (Suc n) (accumulated_commits e commits_url n)
       = commit_pages e commits_url (Suc (Suc n)) (accumulated_commits e commits_url (Suc n))"
proof -
  let ?r = "commit_response e commits_url (Suc n)"
  from full obtain cs where cs: "?r = JArr cs" "\<not> length cs < per_page"
    by (cases ?r) (auto simp: list_items_def per_page_def)
  from cs(2) have ne: "cs \<noteq> []" by (auto simp: per_page_def)
  show ?thesis
    by (subst commit_pages.simps)
       (simp add: github_request_commits[OF tok] cs ne accumulated_commits_Suc list_items_def)
qed

lemma commit_pages_prefix:
  assumes tok: "\<not> token_missing e"
    and cont: "\<forall>page. 1 \<le> page \<and> page \<le> n \<longrightarrow>
        per_page \<le> length (list_items (commit_response e commits_url page))"
  shows "commit_pages e commits_url 1 []
       = commit_pages e commits_url (Suc n) (accumulated_commits e commits_url n)"
  using cont
proof (induction n)
  case 0
  show ?case by simp
next
  case (Suc n)
  then have "commit_pages e commits_url 1 []
      = commit_pages e commits_url (Suc n) (accumulated_commits e commits_url n)"
    by simp
  also have "\<dots> = commit_pages e commits_url (Suc (Suc n))
                      (accumulated_commits e commits_url (Suc n))"
  proof (rule commit_pages_continue[OF tok])
    show "per_page \<le> length (list_items (commit_response e commits_url (Suc n)))"
      using Suc.prems by simp
  qed
  finally show ?case .
qed

lemma commit_pages_stop:
  assumes tok: "\<not> token_missing e"
    and short: "length (list_items (commit_response e commits_url (Suc n))) < per_page"
  shows "commit_pages e commits_url (Suc n) (accumulated_commits e commits_url n)
       = Some (Inr (accumulated_commits e commits_url (Suc n),
                    length (accumulated_commits e commits_url (Suc n))))"
proof -
  let ?r = "commit_response e commits_url (Suc n)"
  show ?thesis
  proof (cases ?r)
    case (JArr cs)
    with short show ?thesis
      by (subst commit_pages.simps)
         (auto simp: github_request_commits[OF tok] accumulated_commits_Suc list_items_def)
  qed (subst commit_pages.simps,
       simp add: github_request_commits[OF tok] accumulated_commits_Suc list_items_def)+
qed

lemma commits_terminate:
  assumes tok: "\<not> token_missing e"
    and N: "1 \<le> N"
    and short: "length (list_items (commit_response e commits_url N)) < per_page"
  shows "\<exists>m. 1 \<le> m \<and> m \<le> N
      \<and> (\<forall>j. 1 \<le> j \<and> j < m \<longrightarrow>
            per_page \<le> length (list_items (commit_response e commits_url j)))
      \<and> length (list_items (commit_response e commits_url m)) < per_page
      \<and> commit_pages e commits_url 1 []
          = Some (Inr (accumulated_commits e commits_url m,
                       length (accumulated_commits e commits_url m)))"
proof -
  let ?short = "\<lambda>j. 1 \<le> j \<and> length (list_items (commit_response e commits_url j)) < per_page"
  define m where "m = (LEAST j. ?short j)"
  have m: "?short m"
    unfolding m_def using N short by (rule LeastI[of ?short, OF conjI])
  have mN: "m \<le> N"
    unfolding m_def using N short by (intro Least_le conjI)
  have before: "per_page \<le> length (list_items (commit_response e commits_url j))"
    if "1 \<le> j" "j < m" for j
    using that not_less_Least[of j ?short] by (auto simp: m_def)
  from m obtain n where n: "m = Suc n" by (cases m) auto
  have "commit_pages e commits_url 1 []
      = commit_pages e commits_url (Suc n) (accumulated_commits e commits_url n)"
    using tok by (rule commit_pages_prefix) (use before n in auto)
  also have "\<dots> = Some (Inr (accumulated_commits e commits_url (Suc n),
                    length (accumulated_commits e commits_url (Suc n))))"
    using tok m unfolding n by (intro commit_pages_stop) auto
  finally show ?thesis
    using m mN n before by auto
qed

text \<open>
  Claim C4. With a credential, if the pages up to page \<open>N\<close> raise no exception (each is
  a failed request or an object with a numeric \<^verbatim>\<open>total_count\<close>) and page \<open>N\<close> has
  fewer than \<^verbatim>\<open>per_page\<close> items or brings the accumulated count to its
  \<^verbatim>\<open>total_count\<close>, then the search paginator of pr.py and review.py returns. The
  page \<open>m \<le> N\<close> it stops at is the terminating page: every page before \<open>m\<close> continued
  the crawl and page \<open>m\<close> does not, so the pages fetched are exactly 1 to \<open>m\<close>, and
  the items returned are those of pages 1 to \<open>m\<close> in fetch order. The commit paginator
  returns in the same way as soon as some page has fewer than \<^verbatim>\<open>per_page\<close>
  commits: every page before \<open>m\<close> is full, page \<open>m\<close> is short, and the commits
  returned are those of pages 1 to \<open>m\<close>.
\<close>

theorem pagination_terminates:
  "(\<not> token_missing e \<and> 1 \<le> N
      \<and> (\<forall>page. 1 \<le> page \<and> page \<le> N \<longrightarrow> page_ok (search_response e query page))
      \<and> (length (page_items (search_response e query N)) < per_page
          \<or> num_val (get_or (search_response e query N) ''total_count'' (JNum 0))
              \<le> int (length (accumulated e query N)))
    \<longrightarrow> (\<exists>m. 1 \<le> m \<and> m \<le> N
          \<and> (\<forall>j. 1 \<le> j \<and> j < m \<longrightarrow> continues e query j)
          \<and> \<not> continues e query m
          \<and> get_filtered_prs e query
              = Some (Inr (accumulated e query m,
                           reported_total (search_response e query m)
                             (length (accumulated e query m))))
          \<and> get_all_prs_fast e query = get_filtered_prs e query))
 \<and> (\<not> token_missing e \<and> 1 \<le> M
      \<and> length (list_items (commit_response e
            (\<lambda>page. ListCommits org repo user since_date until_date per_page page) M)) < per_page
    \<longrightarrow> (\<exists>m. 1 \<le> m \<and> m \<le> M
          \<and> (\<forall>j. 1 \<le> j \<and> j < m \<longrightarrow>
                per_page \<le> length (list_items (commit_response e
                  (\<lambda>page. ListCommits org repo user since_date until_date per_page page) j)))
          \<and> length (list_items (commit_response e
                (\<lambda>page. ListCommits org repo user since_date until_date per_page page) m))
              < per_page
          \<and> get_all_commits_fast e org repo user since_date until_date
              = Some (Inr (accumulated_commits e
                             (\<lambda>page. ListCommits org repo user since_date until_date per_page page) m,
                           length (accumulated_commits e
                             (\<lambda>page. ListCommits org repo user since_date until_date per_page page) m)))))"
proof (intro conjI impI)
  assume h: "\<not> token_missing e \<and> 1 \<le> N
      \<and> (\<forall>page. 1 \<le> page \<and> page \<le> N \<longrightarrow> page_ok (search_response e query page))
      \<and> (length (page_items (search_response e query N)) < per_page
          \<or> num_val (get_or (search_response e query N) ''total_count'' (JNum 0))
              \<le> int (length (accumulated e query N)))"
  from search_terminates[of e N query] h
  show "\<exists>m. 1 \<le> m \<and> m \<le> N
          \<and> (\<forall>j. 1 \<le> j \<and> j < m \<longrightarrow> continues e query j)
          \<and> \<not> continues e query m
          \<and> get_filtered_prs e query
              = Some (Inr (accumulated e query m,
                           reported_total (search_response e query m)
                             (length (accumulated e query m))))
          \<and> get_all_prs_fast e query = get_filtered_prs e query"
    unfolding get_filtered_prs_def get_all_prs_fast_def by blast
next
  let ?u = "\<lambda>page. ListCommits org repo user since_date until_date per_page page"
  assume h: "\<not> token_missing e \<and> 1 \<le> M
      \<and> length (list_items (commit_response e ?u M)) < per_page"
  from commits_terminate[of e M ?u] h
  show "\<exists>m. 1 \<le> m \<and> m \<le> M
          \<and> (\<forall>j. 1 \<le> j \<and> j < m \<longrightarrow>
                per_page \<le> length (list_items (commit_response e ?u j)))
          \<and> length (list_items (commit_response e ?u m)) < per_page
          \<and> get_all_commits_fast e org repo user since_date until_date
              = Some (Inr (accumulated_commits e ?u m, length (accumulated_commits e ?u m)))"
    unfolding get_all_commits_fast_def by blast
qed

lemma example_run_page1:
  "search_response (example_run found) q (Suc 0)
     = JObj [(''items'', JArr found), (''total_count'', JNum (int (length found)))]"
  by (simp add: search_response_def example_run_def example_net_def)

lemma example_env_token: "\<not> token_missing example_env"
  by (simp add: token_missing_def example_env_def)

lemma example_env_commits: "commit_response example_env u page = JNull"
  by (simp add: commit_response_def example_env_def)

lemma two_pages_token: "\<not> token_missing example_two_pages"
  by (simp add: token_missing_def example_two_pages_def example_env_def)

lemma two_pages_search:
  "search_response example_two_pages q (Suc 0)
     = JObj [(''items'', JArr (replicate 100 (example_item 1 ''main''))),
             (''total_count'', JNum 120)]"
  "search_response example_two_pages q (Suc (Suc 0))
     = JObj [(''items'', JArr (replicate 20 (example_item 2 ''main''))),
             (''total_count'', JNum 120)]"
  by (simp_all add: search_response_def example_two_pages_def)

lemma two_pages_commits:
  "commit_response example_two_pages
       (\<lambda>page. ListCommits org repo user since_date until_date n page) (Suc 0)
     = JArr (replicate 100 (JObj [(''sha'', JStr ''a1'')]))"
  "commit_response example_two_pages
       (\<lambda>page. ListCommits org repo user since_date until_date n page) (Suc (Suc 0))
     = JArr (replicate 20 (JObj [(''sha'', JStr ''b2'')]))"
  by (simp_all add: commit_response_def example_two_pages_def)

lemma two_pages_accumulated:
  "accumulated example_two_pages q (Suc 0) = replicate 100 (example_item 1 ''main'')"
  "accumulated example_two_pages q (Suc (Suc 0))
     = replicate 100 (example_item 1 ''main'') @ replicate 20 (example_item 2 ''main'')"
  by (simp_all add: accumulated_Suc two_pages_search page_items_def)

lemma two_pages_continues: "continues example_two_pages q (Suc 0)"
  by (simp add: continues_def two_pages_search two_pages_accumulated page_items_def
      per_page_def)

lemma one_or_two: "1 \<le> m \<Longrightarrow> m \<le> 2 \<Longrightarrow> m = Suc 0 \<or> m = Suc (Suc 0)"
  by arith

theorem pagination_terminates_witness:
  "get_filtered_prs example_two_pages ''q''
     = Some (Inr (replicate 100 (example_item 1 ''main'')
                    @ replicate 20 (example_item 2 ''main''), JNum 120))
   \<and> get_all_commits_fast example_two_pages ''o'' ''r'' ''u'' ''2025-01-01'' ''2025-01-14''
     = Some (Inr (replicate 100 (JObj [(''sha'', JStr ''a1'')])
                    @ replicate 20 (JObj [(''sha'', JStr ''b2'')]), 120))"
proof -
  let ?e = "example_two_pages"
  let ?u = "\<lambda>page. ListCommits ''o'' ''r'' ''u'' ''2025-01-01'' ''2025-01-14'' per_page page"
  have ok: "\<forall>page. 1 \<le> page \<and> page \<le> 2 \<longrightarrow> page_ok (search_response ?e ''q'' page)"
  proof (intro allI impI)
    fix page :: nat
    assume "1 \<le> page \<and> page \<le> 2"
    then have "page = Suc 0 \<or> page = Suc (Suc 0)" by (simp add: one_or_two)
    then show "page_ok (search_response ?e ''q'' page)"
      by (auto simp: two_pages_search page_ok_def)
  qed
  have two: "(2::nat) = Suc (Suc 0)" by simp
  have short: "length (page_items (search_response ?e ''q'' 2)) < per_page"
    unfolding two by (simp add: two_pages_search page_items_def per_page_def)
  have cshort: "length (list_items (commit_response ?e ?u 2)) < per_page"
    unfolding two by (simp add: two_pages_commits list_items_def per_page_def)
  have pos: "(1::nat) \<le> 2" by simp
  note inst = pagination_terminates[of ?e 2 "''q''" 2 "''o''" "''r''" "''u''"
      "''2025-01-01''" "''2025-01-14''"]
  from conjunct1[OF inst] two_pages_token pos ok short obtain m where
    m: "1 \<le> m" "m \<le> 2"
    and last: "\<not> continues ?e ''q'' m"
    and res: "get_filtered_prs ?e ''q''
        = Some (Inr (accumulated ?e ''q'' m,
                     reported_total (search_response ?e ''q'' m) (length (accumulated ?e ''q'' m))))"
    by blast
  from m have "m = Suc 0 \<or> m = Suc (Suc 0)" by (rule one_or_two)
  with last two_pages_continues[of "''q''"] have m2: "m = Suc (Suc 0)" by blast
  have first: "get_filtered_prs ?e ''q''
      = Some (Inr (replicate 100 (example_item 1 ''main'')
                     @ replicate 20 (example_item 2 ''main''), JNum 120))"
    unfolding res m2 two_pages_accumulated
    by (simp add: two_pages_search reported_total_def)
  from conjunct2[OF inst] two_pages_token pos cshort obtain k where
    k: "1 \<le> k" "k \<le> 2"
    and clast: "length (list_items (commit_response ?e ?u k)) < per_page"
    and cres: "get_all_commits_fast ?e ''o'' ''r'' ''u'' ''2025-01-01'' ''2025-01-14''
        = Some (Inr (accumulated_commits ?e ?u k, length (accumulated_commits ?e ?u k)))"
    by blast
  from k have "k = Suc 0 \<or> k = Suc (Suc 0)" by (rule one_or_two)
  moreover have "\<not> length (list_items (commit_response ?e ?u (Suc 0))) < per_page"
    by (simp add: two_pages_commits list_items_def per_page_def)
  ultimately have k2: "k = Suc (Suc 0)" using clast by blast
  have cacc: "accumulated_commits ?e ?u (Suc (Suc 0))
      = replicate 100 (JObj [(''sha'', JStr ''a1'')]) @ replicate 20 (JObj [(''sha'', JStr ''b2'')])"
    by (simp add: accumulated_commits_Suc two_pages_commits list_items_def)
  have second: "get_all_commits_fast ?e ''o'' ''r'' ''u'' ''2025-01-01'' ''2025-01-14''
      = Some (Inr (replicate 100 (JObj [(''sha'', JStr ''a1'')])
                     @ replicate 20 (JObj [(''sha'', JStr ''b2'')]), 120))"
    unfolding cres k2 cacc by simp
  from first second show ?thesis by simp
qed

lemma truncated_token: "\<not> token_missing example_truncated"
  by (simp add: token_missing_def example_truncated_def example_env_def)

lemma truncated_page1:
  "search_response example_truncated q (Suc 0)
     = JObj [(''items'', JArr (replicate 100 (example_item 1 ''main''))), (''total_count'', JNum 250)]"
  by (simp add: search_response_def example_truncated_def)

lemma truncated_page2: "search_response example_truncated q (Suc (Suc 0)) = JNull"
  by (simp add: search_response_def example_truncated_def)

lemma truncated_acc1: "accumulated example_truncated q (Suc 0) = replicate 100 (example_item 1 ''main'')"
  by (simp add: accumulated_Suc truncated_page1 page_items_def)

lemma truncated_continues: "continues example_truncated q (Suc 0)"
  by (simp add: continues_def truncated_page1 truncated_acc1 page_items_def per_page_def)

lemma search_pages_failed:
  assumes tok: "\<not> token_missing e"
    and cont: "\<forall>page. 1 \<le> page \<and> page \<le> n \<longrightarrow> continues e query page"
    and failed: "\<not> truthy (search_response e query (Suc n))"
  shows "search_pages e query 1 []
       = Some (Inr (accumulated e query n, JNum (int (length (accumulated e query n)))))"
proof -
  have "search_pages e query 1 [] = search_pages e query (Suc n) (accumulated e query n)"
    using tok cont by (rule search_pages_prefix)
  also have "\<dots> = Some (Inr (accumulated e query n, JNum (int (length (accumulated e query n)))))"
    using failed
    by (subst search_pages.simps) (simp add: github_request_search[OF tok] search_return_def)
  finally show ?thesis .
qed

lemma search_pages_bad_items:
  assumes tok: "\<not> token_missing e"
    and cont: "\<forall>page. 1 \<le> page \<and> page \<le> n \<longrightarrow> continues e query page"
    and shape: "truthy (search_response e query (Suc n))" "is_dict (search_response e query (Suc n))"
      "\<not> is_list (get_or (search_response e query (Suc n)) ''items'' (JArr []))"
  shows "search_pages e query 1 []
       = Some (Inr (accumulated e query n,
                    get_or (search_response e query (Suc n)) ''total_count''
                      (JNum (int (length (accumulated e query n))))))"
proof -
  let ?r = "search_response e query (Suc n)"
  from shape(2) obtain kvs where r: "?r = JObj kvs" by (cases ?r) simp_all
  have ret: "search_return all_items ?r
      = Inr (all_items, get_or ?r ''total_count'' (JNum (int (length all_items))))" for all_items
    using shape(1) by (simp add: search_return_def r)
  have "search_pages e query 1 [] = search_pages e query (Suc n) (accumulated e query n)"
    using tok cont by (rule search_pages_prefix)
  also have "\<dots> = Some (Inr (accumulated e query n,
                    get_or ?r ''total_count'' (JNum (int (length (accumulated e query n))))))"
    using shape
    by (subst search_pages.simps)
       (cases "get_or ?r ''items'' (JArr [])";
        simp add: github_request_search[OF tok] Let_def ret)
  finally show ?thesis .
qed

lemma commit_pages_failed:
  assumes tok: "\<not> token_missing e"
    and cont: "\<forall>page. 1 \<le> page \<and> page \<le> n \<longrightarrow>
        per_page \<le> length (list_items (commit_response e commits_url page))"
    and failed: "\<not> truthy (commit_response e commits_url (Suc n))
        \<or> \<not> is_list (commit_response e commits_url (Suc n))"
  shows "commit_pages e commits_url 1 []
       = Some (Inr (accumulated_commits e commits_url n,
                    length (accumulated_commits e commits_url n)))"
proof -
  have "commit_pages e commits_url 1 []
      = commit_pages e commits_url (Suc n) (accumulated_commits e commits_url n)"
    using tok cont by (rule commit_pages_prefix)
  also have "\<dots> = Some (Inr (accumulated_commits e commits_url n,
                    length (accumulated_commits e commits_url n)))"
    using failed
    by (subst commit_pages.simps)
       (cases "commit_response e commits_url (Suc n)";
        auto simp: github_request_commits[OF tok])
  finally show ?thesis .
qed

text \<open>
  A search response that is truthy and not an object ends the loop as well, but the
  \<^verbatim>\<open>return\<close> statement then calls \<^verbatim>\<open>get\<close> on it and raises.
\<close>

lemma non_dict_page_raises:
  assumes tok: "\<not> token_missing e"
    and shape: "truthy (search_response e query 1)" "\<not> is_dict (search_response e query 1)"
  shows "get_filtered_prs e query = Some (Inl AttributeError)"
  unfolding get_filtered_prs_def using shape
  by (subst search_pages.simps)
     (cases "search_response e query 1";
      simp add: github_request_search[OF tok] search_return_def)

text \<open>
  Against claim C5 as stated: page 1 is full and reports a total of 250, the request for
  page 2 fails, and the paginator returns the 100 items with 100 as the total.
\<close>

theorem failed_page_total_is_item_count:
  "get_filtered_prs example_truncated ''q'' = Some (Inr (replicate 100 (example_item 1 ''main''), JNum 100))
   \<and> get_or (search_response example_truncated ''q'' 1) ''total_count'' JNull = JNum 250
   \<and> urlopen example_truncated (SearchIssues ''q'' per_page 2) = None"
proof -
  have cont: "\<forall>page. 1 \<le> page \<and> page \<le> Suc 0 \<longrightarrow> continues example_truncated ''q'' page"
    using truncated_continues by (auto simp: le_Suc_eq)
  have "search_pages example_truncated ''q'' 1 []
       = Some (Inr (accumulated example_truncated ''q'' (Suc 0),
            JNum (int (length (accumulated example_truncated ''q'' (Suc 0))))))"
    using truncated_token cont by (rule search_pages_failed) (simp add: truncated_page2)
  then have "get_filtered_prs example_truncated ''q''
      = Some (Inr (replicate 100 (example_item 1 ''main''), JNum 100))"
    by (simp add: get_filtered_prs_def truncated_acc1)
  moreover have "get_or (search_response example_truncated ''q'' 1) ''total_count'' JNull
      = JNum 250"
    by (simp add: truncated_page1)
  moreover have "urlopen example_truncated (SearchIssues ''q'' per_page 2) = None"
    by (simp add: example_truncated_def)
  ultimately show ?thesis by simp
qed

text \<open>
  Claim C5, amended. After \<open>n\<close> pages that continued the crawl: when the request for
  the next page fails (or its body is empty), the search paginator returns, without an
  exception, the items accumulated from the earlier pages together with their number as
  the total; when the next response is an object whose \<^verbatim>\<open>items\<close> is not a list,
  it returns the accumulated items together with that response's \<^verbatim>\<open>total_count\<close>
  (their number when it has none); the commit paginator returns the accumulated commits
  and their number when the next request fails or its response is not a list.
\<close>

theorem silent_truncation:
  "(\<not> token_missing e
      \<and> (\<forall>page. 1 \<le> page \<and> page \<le> n \<longrightarrow> continues e query page)
      \<and> \<not> truthy (search_response e query (Suc n))
    \<longrightarrow> get_filtered_prs e query
          = Some (Inr (accumulated e query n, JNum (int (length (accumulated e query n)))))
        \<and> get_all_prs_fast e query = get_filtered_prs e query)
 \<and> (\<not> token_missing e
      \<and> (\<forall>page. 1 \<le> page \<and> page \<le> n \<longrightarrow> continues e query page)
      \<and> truthy (search_response e query (Suc n)) \<and> is_dict (search_response e query (Suc n))
      \<and> \<not> is_list (get_or (search_response e query (Suc n)) ''items'' (JArr []))
    \<longrightarrow> get_filtered_prs e query
          = Some (Inr (accumulated e query n,
                       get_or (search_response e query (Suc n)) ''total_count''
                         (JNum (int (length (accumulated e query n))))))
        \<and> get_all_prs_fast e query = get_filtered_prs e query)
 \<and> (\<not> token_missing e
      \<and> (\<forall>page. 1 \<le> page \<and> page \<le> n \<longrightarrow>
            per_page \<le> length (list_items (commit_response e
              (\<lambda>page. ListCommits org repo user since_date until_date per_page page) page)))
      \<and> (\<not> truthy (commit_response e
              (\<lambda>page. ListCommits org repo user since_date until_date per_page page) (Suc n))
          \<or> \<not> is_list (commit_response e
              (\<lambda>page. ListCommits org repo user since_date until_date per_page page) (Suc n)))
    \<longrightarrow> get_all_commits_fast e org repo user since_date until_date
          = Some (Inr (accumulated_commits e
                         (\<lambda>page. ListCommits org repo user since_date until_date per_page page) n,
                       length (accumulated_commits e
                         (\<lambda>page. ListCommits org repo user since_date until_date per_page page) n))))"
proof (intro conjI impI)
  assume h: "\<not> token_missing e
      \<and> (\<forall>page. 1 \<le> page \<and> page \<le> n \<longrightarrow> continues e query page)
      \<and> \<not> truthy (search_response e query (Suc n))"
  then show "get_filtered_prs e query
          = Some (Inr (accumulated e query n, JNum (int (length (accumulated e query n)))))"
    unfolding get_filtered_prs_def using search_pages_failed[of e n query] by blast
  show "get_all_prs_fast e query = get_filtered_prs e query"
    by (simp add: get_filtered_prs_def get_all_prs_fast_def)
next
  assume h: "\<not> token_missing e
      \<and> (\<forall>page. 1 \<le> page \<and> page \<le> n \<longrightarrow> continues e query page)
      \<and> truthy (search_response e query (Suc n)) \<and> is_dict (search_response e query (Suc n))
      \<and> \<not> is_list (get_or (search_response e query (Suc n)) ''items'' (JArr []))"
  then show "get_filtered_prs e query
          = Some (Inr (accumulated e query n,
                       get_or (search_response e query (Suc n)) ''total_count''
                         (JNum (int (length (accumulated e query n))))))"
    unfolding get_filtered_prs_def using search_pages_bad_items[of e n query] by blast
  show "get_all_prs_fast e query = get_filtered_prs e query"
    by (simp add: get_filtered_prs_def get_all_prs_fast_def)
next
  let ?u = "\<lambda>page. ListCommits org repo user since_date until_date per_page page"
  assume h: "\<not> token_missing e
      \<and> (\<forall>page. 1 \<le> page \<and> page \<le> n \<longrightarrow>
            per_page \<le> length (list_items (commit_response e ?u page)))
      \<and> (\<not> truthy (commit_response e ?u (Suc n)) \<or> \<not> is_list (commit_response e ?u (Suc n)))"
  then show "get_all_commits_fast e org repo user since_date until_date
          = Some (Inr (accumulated_commits e ?u n, length (accumulated_commits e ?u n)))"
    unfolding get_all_commits_fast_def using commit_pages_failed[of e n ?u] by blast
qed

lemma malformed_token: "\<not> token_missing example_malformed"
  by (simp add: token_missing_def example_malformed_def example_env_def)

lemma malformed_page:
  "search_response example_malformed q page
     = JObj [(''items'', JStr ''none''), (''total_count'', JNum 5)]"
  by (simp add: search_response_def example_malformed_def)

theorem silent_truncation_witness:
  "get_filtered_prs example_truncated ''q'' = Some (Inr (replicate 100 (example_item 1 ''main''), JNum 100))
   \<and> get_filtered_prs example_malformed ''q'' = Some (Inr ([], JNum 5))
   \<and> get_all_commits_fast example_env ''o'' ''r'' ''u'' ''2025-01-01'' ''2025-01-14''
       = Some (Inr ([], 0))"
proof -
  let ?u = "\<lambda>page. ListCommits ''o'' ''r'' ''u'' ''2025-01-01'' ''2025-01-14'' per_page page"
  have cont: "\<forall>page. 1 \<le> page \<and> page \<le> Suc 0 \<longrightarrow> continues example_truncated ''q'' page"
    using truncated_continues by (auto simp: le_Suc_eq)
  have failed: "\<not> truthy (search_response example_truncated ''q'' (Suc (Suc 0)))"
    by (simp add: truncated_page2)
  from conjunct1[OF silent_truncation[of example_truncated "Suc 0" "''q''"]]
    truncated_token cont failed
  have "get_filtered_prs example_truncated ''q''
      = Some (Inr (accumulated example_truncated ''q'' (Suc 0),
                   JNum (int (length (accumulated example_truncated ''q'' (Suc 0))))))"
    by blast
  then have first: "get_filtered_prs example_truncated ''q''
      = Some (Inr (replicate 100 (example_item 1 ''main''), JNum 100))"
    by (simp add: truncated_acc1)
  have none: "\<forall>page. 1 \<le> page \<and> page \<le> 0 \<longrightarrow> continues example_malformed ''q'' page"
    by simp
  have shape: "truthy (search_response example_malformed ''q'' (Suc 0))"
    "is_dict (search_response example_malformed ''q'' (Suc 0))"
    "\<not> is_list (get_or (search_response example_malformed ''q'' (Suc 0)) ''items'' (JArr []))"
    by (simp_all add: malformed_page)
  from conjunct1[OF conjunct2[OF silent_truncation[of example_malformed 0 "''q''"]]]
    malformed_token none shape
  have "get_filtered_prs example_malformed ''q''
      = Some (Inr (accumulated example_malformed ''q'' 0,
                   get_or (search_response example_malformed ''q'' (Suc 0)) ''total_count''
                     (JNum (int (length (accumulated example_malformed ''q'' 0))))))"
    by blast
  then have second: "get_filtered_prs example_malformed ''q'' = Some (Inr ([], JNum 5))"
    by (simp add: malformed_page)
  have cnone: "\<forall>page. 1 \<le> page \<and> page \<le> 0 \<longrightarrow>
      per_page \<le> length (list_items (commit_response example_env ?u page))"
    by simp
  have cfailed: "\<not> truthy (commit_response example_env ?u (Suc 0))
      \<or> \<not> is_list (commit_response example_env ?u (Suc 0))"
    by (simp add: example_env_commits)
  from conjunct2[OF conjunct2[OF silent_truncation[of example_env 0 _ "''o''" "''r''" "''u''"
        "''2025-01-01''" "''2025-01-14''"]]]
    example_env_token cnone cfailed
  have "get_all_commits_fast example_env ''o'' ''r'' ''u'' ''2025-01-01'' ''2025-01-14''
      = Some (Inr (accumulated_commits example_env ?u 0,
                   length (accumulated_commits example_env ?u 0)))"
    by blast
  then have third: "get_all_commits_fast example_env ''o'' ''r'' ''u'' ''2025-01-01'' ''2025-01-14''
      = Some (Inr ([], 0))"
    by simp
  from first second third show ?thesis by simp
qed

end
